theory Spec2Isabelle
  imports Main "HOL-Library.Word"
begin

section \<open>Errors\<close>

text \<open>
  Go's \<^verbatim>\<open>error\<close> values. \<open>Timedout\<close> is the sentinel \<^verbatim>\<open>wmierrors.Timedout\<close>;
  \<open>External\<close> is an error handed back by a collaborator (WMI, the pipe transport);
  \<open>Errorf fmt e\<close> is an error built with \<^verbatim>\<open>fmt.Errorf\<close> from the format string
  \<open>fmt\<close> and, where the call passes one, the error \<open>e\<close> it formats. The other
  format arguments (names, numbers) only change the message text and are left out.
\<close>

datatype error =
    Timedout
  | External string
  | Errorf string "error option"

section \<open>Waiting for a service state (pkg/os/system/api.go)\<close>

text \<open>
  \<^verbatim>\<open>stateCheckFunc\<close> and \<^verbatim>\<open>stateTransitionFunc\<close> act on the services of the
  host: they take the state \<open>'s\<close> of the host and return the new one next to their
  results. A check returns Go's \<^verbatim>\<open>(bool, string, ServiceInterface, error)\<close>.
\<close>

type_synonym ('s, 'h) stateCheckFunc = "'s \<Rightarrow> (bool \<times> string \<times> 'h \<times> error option) \<times> 's"
type_synonym ('s, 'h) stateTransitionFunc = "'h \<Rightarrow> 's \<Rightarrow> error option \<times> 's"

text \<open>The invocations of the two functions, in the order they are made.\<close>

datatype call = CheckCall | TransitionCall

text \<open>
  The loop \<^verbatim>\<open>for { select { case <-ticker.C: ... case <-timeoutChan: ... } }\<close>. The
  durations \<^verbatim>\<open>interval\<close> and \<^verbatim>\<open>timeout\<close> decide which channel each \<^verbatim>\<open>select\<close>
  receives from; \<open>ticks\<close> is the number of times it receives from the ticker before
  it receives from \<^verbatim>\<open>timeoutChan\<close>, so a call is determined by \<open>ticks\<close> rather than by
  the two durations (the interval is positive, as \<^verbatim>\<open>time.NewTicker\<close> requires).
  The tick branch runs the check, returns the wrapped error or the state when done,
  and goes round otherwise; the timeout branch runs the check once more, drops its
  \<^verbatim>\<open>done\<close> and \<^verbatim>\<open>err\<close>, and returns \<^verbatim>\<open>wmierrors.Timedout\<close>.
\<close>

fun pollLoop ::
  "('s, 'h) stateCheckFunc \<Rightarrow> nat \<Rightarrow> 's \<Rightarrow> call list
     \<Rightarrow> (string \<times> error option) \<times> 's \<times> call list"
where
  "pollLoop stateCheck 0 s calls =
     (case stateCheck s of
        ((done, state, service, err), s') \<Rightarrow>
          ((state, Some Timedout), s', calls @ [CheckCall]))"
| "pollLoop stateCheck (Suc ticks) s calls =
     (case stateCheck s of
        ((done, state, service, err), s') \<Rightarrow>
          (case err of
             Some e \<Rightarrow>
               ((state, Some (Errorf ''check failed: %w'' (Some e))), s', calls @ [CheckCall])
           | None \<Rightarrow>
               if done then ((state, None), s', calls @ [CheckCall])
               else pollLoop stateCheck ticks s' (calls @ [CheckCall])))"

text \<open>
  \<^verbatim>\<open>WaitUntilServiceState\<close>: the returned pair \<^verbatim>\<open>(state, err)\<close>, the host's state
  afterwards, and the calls made.
\<close>

definition WaitUntilServiceState ::
  "('s, 'h) stateTransitionFunc \<Rightarrow> ('s, 'h) stateCheckFunc \<Rightarrow> nat \<Rightarrow> 's
     \<Rightarrow> (string \<times> error option) \<times> 's \<times> call list"
where
  "WaitUntilServiceState stateTransition stateCheck ticks s =
     (case stateCheck s of
        ((done, state, service, err), s1) \<Rightarrow>
          (case err of
             Some e \<Rightarrow> ((state, Some e), s1, [CheckCall])
           | None \<Rightarrow>
               if done then ((state, None), s1, [CheckCall])
               else
                 (case stateTransition service s1 of
                    (Some e, s2) \<Rightarrow> ((state, Some e), s2, [CheckCall, TransitionCall])
                  | (None, s2) \<Rightarrow> pollLoop stateCheck ticks s2 [CheckCall, TransitionCall])))"

text \<open>
  The host's state after \<open>n\<close> checks, and whether the next \<open>n\<close> checks all report
  \<^verbatim>\<open>done = false\<close> without an error.
\<close>

fun afterChecks :: "('s, 'h) stateCheckFunc \<Rightarrow> nat \<Rightarrow> 's \<Rightarrow> 's" where
  "afterChecks stateCheck 0 s = s"
| "afterChecks stateCheck (Suc n) s = afterChecks stateCheck n (snd (stateCheck s))"

fun notDoneFor :: "('s, 'h) stateCheckFunc \<Rightarrow> nat \<Rightarrow> 's \<Rightarrow> bool" where
  "notDoneFor stateCheck 0 s = True"
| "notDoneFor stateCheck (Suc n) s =
     (case stateCheck s of
        ((done, state, service, err), s') \<Rightarrow>
          \<not> done \<and> err = None \<and> notDoneFor stateCheck n s')"

subsection \<open>Example hosts\<close>

text \<open>
  The host's state is a counter: 0 is a stopped service, and once started the
  service is running from the third check on.
\<close>

definition slowStartCheck :: "(nat, unit) stateCheckFunc" where
  "slowStartCheck n =
     (if 3 \<le> n then ((True, ''Running'', (), None), n)
      else if 1 \<le> n then ((False, ''Start Pending'', (), None), n + 1)
      else ((False, ''Stopped'', (), None), n))"

definition startTransition :: "(nat, unit) stateTransitionFunc" where
  "startTransition service n = (None, 1)"

text \<open>A host whose second check after the start fails.\<close>

definition failingCheck :: "(nat, unit) stateCheckFunc" where
  "failingCheck n =
     (if 2 \<le> n then ((False, '''', (), Some (External ''access denied'')), n)
      else if 1 \<le> n then ((False, ''Start Pending'', (), None), n + 1)
      else ((False, ''Stopped'', (), None), n))"

section \<open>Service dependents (pkg/os/system/api.go)\<close>

definition serviceStateRunning :: string where
  "serviceStateRunning = ''Running''"

definition serviceStateStopped :: string where
  "serviceStateStopped = ''Stopped''"

text \<open>
  \<^verbatim>\<open>ServiceFactory.GetService\<close> and the three methods of \<^verbatim>\<open>ServiceInterface\<close> that
  the traversal calls, over service handles of type \<open>'h\<close>. Each call returns a value or
  an error. The traversal only reads, so one snapshot of the services answers all of
  its calls.
\<close>

record 'h ServiceFactory =
  GetService :: "string \<Rightarrow> error + 'h"
  GetPropertyName :: "'h \<Rightarrow> error + string"
  GetPropertyState :: "'h \<Rightarrow> error + string"
  GetDependents :: "'h \<Rightarrow> error + 'h list"

text \<open>
  The loop \<^verbatim>\<open>for i < len(servicesToCheck)\<close> of \<^verbatim>\<open>GetDependentsForService\<close>: the
  slice \<open>servicesToCheck\<close> grows while the index \<open>i\<close> walks it. The result is Go's pair
  \<^verbatim>\<open>(serviceNames, err)\<close>. The map \<open>servicesByName\<close> is carried along as in the
  source, which stores into it and never looks a name up. The loop need not end, so
  it is a partial function: \<open>None\<close> is a run that never returns.
\<close>

partial_function (option) checkLoop ::
  "'h ServiceFactory \<Rightarrow> nat \<Rightarrow> 'h list \<Rightarrow> string list \<Rightarrow> (string \<rightharpoonup> string)
     \<Rightarrow> (string list \<times> error option) option"
where
  "checkLoop w i servicesToCheck serviceNames servicesByName =
    (if i < length servicesToCheck then
       (case GetPropertyName w (servicesToCheck ! i) of
          Inl err \<Rightarrow> Some (serviceNames, Some err)
        | Inr serviceName \<Rightarrow>
           (case GetPropertyState w (servicesToCheck ! i) of
              Inl err \<Rightarrow> Some (serviceNames, Some err)
            | Inr currentState \<Rightarrow>
               if currentState \<noteq> serviceStateRunning
               then checkLoop w (i + 1) servicesToCheck serviceNames servicesByName
               else
                 (case GetDependents w (servicesToCheck ! i) of
                    Inl err \<Rightarrow> Some (serviceName # serviceNames, Some err)
                  | Inr dependents \<Rightarrow>
                      checkLoop w (i + 1) (servicesToCheck @ dependents)
                        (serviceName # serviceNames)
                        (servicesByName(serviceName \<mapsto> serviceName)))))
     else Some (serviceNames, None))"

declare checkLoop.simps [code]

definition GetDependentsForService ::
  "'h ServiceFactory \<Rightarrow> string \<Rightarrow> (string list \<times> error option) option"
where
  "GetDependentsForService w name =
    (case GetService w name of
       Inl err \<Rightarrow> Some ([], Some err)
     | Inr service \<Rightarrow> checkLoop w 0 [service] [] Map.empty)"

subsection \<open>Example service graphs\<close>

text \<open>
  A handle is the service's name. \<open>servicesOf deps states\<close> is the factory of the
  services listed in \<open>states\<close> (name and state), with the dependents listed in \<open>deps\<close>.
\<close>

definition lookupOr :: "'b \<Rightarrow> ('a \<times> 'b) list \<Rightarrow> 'a \<Rightarrow> 'b" where
  "lookupOr d kvs k = (case map_of kvs k of None \<Rightarrow> d | Some v \<Rightarrow> v)"

definition servicesOf ::
  "(string \<times> string list) list \<Rightarrow> (string \<times> string) list \<Rightarrow> string ServiceFactory"
where
  "servicesOf deps states =
    \<lparr> GetService = (\<lambda>n. case map_of states n of
                            None \<Rightarrow> Inl (External ''no such service'')
                          | Some st \<Rightarrow> Inr n),
      GetPropertyName = (\<lambda>h. Inr h),
      GetPropertyState = (\<lambda>h. Inr (lookupOr ''Unknown'' states h)),
      GetDependents = (\<lambda>h. Inr (lookupOr [] deps h)) \<rparr>"

text \<open>A diamond: B and C depend on A, D depends on both B and C; all four run.\<close>

definition diamondServices :: "string ServiceFactory" where
  "diamondServices =
    servicesOf [(''A'', [''B'', ''C'']), (''B'', [''D'']), (''C'', [''D''])]
      [(''A'', ''Running''), (''B'', ''Running''), (''C'', ''Running''), (''D'', ''Running'')]"

text \<open>A cycle of running services: B is a dependent of A and A a dependent of B.\<close>

definition cycleServices :: "string ServiceFactory" where
  "cycleServices =
    servicesOf [(''A'', [''B'']), (''B'', [''A''])]
      [(''A'', ''Running''), (''B'', ''Running'')]"

text \<open>
  The graph with the edges A \<rightarrow> {B, C} and B \<rightarrow> {D}, where C is stopped and the
  others run.
\<close>

definition viaBServices :: "string ServiceFactory" where
  "viaBServices =
    servicesOf [(''A'', [''B'', ''C'']), (''B'', [''D''])]
      [(''A'', ''Running''), (''B'', ''Running''), (''C'', ''Stopped''), (''D'', ''Running'')]"

text \<open>
  The graph with the edges A \<rightarrow> {B, C} and C \<rightarrow> {D}: the running D is reachable
  only through the stopped C.
\<close>

definition viaCServices :: "string ServiceFactory" where
  "viaCServices =
    servicesOf [(''A'', [''B'', ''C'']), (''C'', [''D''])]
      [(''A'', ''Running''), (''B'', ''Running''), (''C'', ''Stopped''), (''D'', ''Running'')]"

text \<open>A name is observed running when some handle has that name and the state Running.\<close>

definition observedRunning :: "'h ServiceFactory \<Rightarrow> string \<Rightarrow> bool" where
  "observedRunning w n =
     (\<exists>h. GetPropertyName w h = Inr n \<and> GetPropertyState w h = Inr serviceStateRunning)"

text \<open>
  A dependent is settled before a position of the result when its name and state
  can be read and, if it is running, its name stands among the names before that
  position.
\<close>

definition settledBefore :: "'h ServiceFactory \<Rightarrow> string list \<Rightarrow> 'h \<Rightarrow> bool" where
  "settledBefore w before d =
     (case GetPropertyName w d of
        Inl err \<Rightarrow> False
      | Inr name \<Rightarrow>
          (case GetPropertyState w d of
             Inl err \<Rightarrow> False
           | Inr state \<Rightarrow> if state = serviceStateRunning then name \<in> set before else True))"

text \<open>
  Every name of the list is the name of a running service each of whose dependents
  is either still in \<open>pending\<close> or settled before the name. With nothing pending the
  list is in dependents-first order: every recorded service stands after the names
  of all its running dependents.
\<close>

definition placed :: "'h ServiceFactory \<Rightarrow> 'h set \<Rightarrow> string list \<Rightarrow> bool" where
  "placed w pending names =
     (\<forall>p < length names.
        \<exists>h ds. GetPropertyName w h = Inr (names ! p)
          \<and> GetPropertyState w h = Inr serviceStateRunning
          \<and> GetDependents w h = Inr ds
          \<and> (\<forall>d \<in> set ds. d \<in> pending \<or> settledBefore w (take p names) d))"

definition dependentsFirst :: "'h ServiceFactory \<Rightarrow> string list \<Rightarrow> bool" where
  "dependentsFirst w names = placed w {} names"

text \<open>
  The graphs that have the edges A \<rightarrow> {B, C} and B \<rightarrow> {D} and the states A, B, D
  running and C stopped, whatever the dependents of C and of D are.
\<close>

definition listedServices :: "string list \<Rightarrow> string list \<Rightarrow> string ServiceFactory" where
  "listedServices depsC depsD =
    servicesOf [(''A'', [''B'', ''C'']), (''B'', [''D'']), (''C'', depsC), (''D'', depsD)]
      [(''A'', ''Running''), (''B'', ''Running''), (''C'', ''Stopped''), (''D'', ''Running'')]"

text \<open>A triangle of running services: C and B depend on A, and C depends on B.\<close>

definition triangleServices :: "string ServiceFactory" where
  "triangleServices =
    servicesOf [(''A'', [''C'', ''B'']), (''B'', [''C''])]
      [(''A'', ''Running''), (''B'', ''Running''), (''C'', ''Running'')]"

section \<open>Server (pkg/server/server.go)\<close>

text \<open>
  A \<^verbatim>\<open>VersionedAPI\<close> by its group and version (its registrant only adds handlers to
  the new gRPC server). The transport is \<^verbatim>\<open>client.PipePath\<close> and
  \<^verbatim>\<open>winio.ListenPipe\<close>, which answers with a listener \<open>'l\<close> or an error.
\<close>

record VersionedAPI =
  Group :: string
  Version :: string

record 'l Transport =
  PipePath :: "string \<Rightarrow> string \<Rightarrow> string"
  ListenPipe :: "string \<Rightarrow> error + 'l"

text \<open>
  What the server does to its collaborators: the listeners it has closed, the serve
  loops it has launched (endpoint index and the listener handed to \<^verbatim>\<open>Serve\<close>) and
  the gRPC servers it has stopped.
\<close>

record 'l Effects =
  closedListeners :: "'l list"
  serveLoops :: "(nat \<times> 'l option) list"
  stoppedServers :: "nat list"

text \<open>
  The fields of \<^verbatim>\<open>Server\<close> that the lifecycle reads and writes. Each method below
  holds the mutex from entry to return, so it is one step on this record. A gRPC
  server is named by the index of its endpoint; a nil slot is \<open>None\<close>.
\<close>

record Server =
  versionedAPIs :: "VersionedAPI list"
  started :: bool
  grpcServers :: "nat option list"

text \<open>The first loop of \<^verbatim>\<open>createListeners\<close>: one \<^verbatim>\<open>ListenPipe\<close> per endpoint.\<close>

fun listenEach ::
  "'l Transport \<Rightarrow> VersionedAPI list \<Rightarrow> nat \<Rightarrow> 'l option list \<Rightarrow> error list
     \<Rightarrow> 'l option list \<times> error list"
where
  "listenEach T [] i listeners errors = (listeners, errors)"
| "listenEach T (versionedAPI # rest) i listeners errors =
     (case ListenPipe T (PipePath T (Group versionedAPI) (Version versionedAPI)) of
        Inr listener \<Rightarrow> listenEach T rest (i + 1) (listeners[i := Some listener]) errors
      | Inl err \<Rightarrow> listenEach T rest (i + 1) listeners (errors @ [err]))"

text \<open>
  The loop over a slice that calls a method on every slot that is not nil
  (\<^verbatim>\<open>listener.Close()\<close> in \<^verbatim>\<open>createListeners\<close>, \<^verbatim>\<open>grpcServer.Stop()\<close> in
  \<^verbatim>\<open>Stop\<close>): the calls are added to those already made.
\<close>

fun eachNonNil :: "'a option list \<Rightarrow> 'a list \<Rightarrow> 'a list" where
  "eachNonNil [] made = made"
| "eachNonNil (None # slots) made = eachNonNil slots made"
| "eachNonNil (Some x # slots) made = eachNonNil slots (made @ [x])"

definition createListeners ::
  "'l Transport \<Rightarrow> Server \<Rightarrow> 'l Effects \<Rightarrow> 'l option list \<times> error list \<times> 'l Effects"
where
  "createListeners T s eff =
     (case listenEach T (versionedAPIs s) 0
             (replicate (length (versionedAPIs s)) None) [] of
        (listeners, errors) \<Rightarrow>
          (listeners, errors,
           if length errors \<noteq> 0
           then eff\<lparr>closedListeners := eachNonNil listeners (closedListeners eff)\<rparr>
           else eff))"

text \<open>
  \<^verbatim>\<open>createAndStartGRPCServers\<close>: a new gRPC server per endpoint and a goroutine
  that serves it on the endpoint's listener. The channel it returns is given by its
  capacity.
\<close>

definition createAndStartGRPCServers ::
  "Server \<Rightarrow> 'l option list \<Rightarrow> 'l Effects \<Rightarrow> nat \<times> Server \<times> 'l Effects"
where
  "createAndStartGRPCServers s listeners eff =
     (length (versionedAPIs s),
      s\<lparr>grpcServers := map Some [0..<length (versionedAPIs s)]\<rparr>,
      eff\<lparr>serveLoops := serveLoops eff
                @ map (\<lambda>index. (index, listeners ! index)) [0..<length (versionedAPIs s)]\<rparr>)"

definition startListening ::
  "'l Transport \<Rightarrow> Server \<Rightarrow> 'l Effects \<Rightarrow> nat option \<times> error list \<times> Server \<times> 'l Effects"
where
  "startListening T s eff =
     (if started s then (None, [Errorf ''server already started'' None], s, eff)
      else
        (case createListeners T (s\<lparr>started := True\<rparr>) eff of
           (listeners, ListenErr, eff1) \<Rightarrow>
             if length ListenErr \<noteq> 0 then (None, ListenErr, s\<lparr>started := True\<rparr>, eff1)
             else
               (case createAndStartGRPCServers (s\<lparr>started := True\<rparr>) listeners eff1 of
                  (doneChan, s2, eff2) \<Rightarrow> (Some doneChan, [], s2, eff2))))"

text \<open>
  \<^verbatim>\<open>Start\<close> up to the point where it has either returned the listen errors or
  goes on to close \<^verbatim>\<open>listeningChan\<close> and to block in
  \<^verbatim>\<open>waitForGRPCServersToStop\<close> until the serve loops end. What the goroutines do
  from there on is outside this development.
\<close>

datatype StartOutcome = Returns "error list" | WaitsForServersToStop

definition Start ::
  "'l Transport \<Rightarrow> Server \<Rightarrow> 'l Effects \<Rightarrow> StartOutcome \<times> Server \<times> 'l Effects"
where
  "Start T s eff =
     (case startListening T s eff of
        (doneChan, ListenErr, s', eff') \<Rightarrow>
          if length ListenErr \<noteq> 0 then (Returns ListenErr, s', eff')
          else (WaitsForServersToStop, s', eff'))"

definition Stop :: "Server \<Rightarrow> 'l Effects \<Rightarrow> error option \<times> Server \<times> 'l Effects" where
  "Stop s eff =
     (if \<not> started s then (Some (Errorf ''server not started yet'' None), s, eff)
      else (None, s,
            eff\<lparr>stoppedServers := eachNonNil (grpcServers s) (stoppedServers eff)\<rparr>))"

subsection \<open>What the transport answers for a list of endpoints\<close>

definition pipeOf :: "'l Transport \<Rightarrow> VersionedAPI \<Rightarrow> string" where
  "pipeOf T api = PipePath T (Group api) (Version api)"

text \<open>The errors of the endpoints whose pipe cannot be listened on, in endpoint order.\<close>

fun listenErrors :: "'l Transport \<Rightarrow> VersionedAPI list \<Rightarrow> error list" where
  "listenErrors T [] = []"
| "listenErrors T (api # apis) =
     (case ListenPipe T (pipeOf T api) of
        Inl err \<Rightarrow> err # listenErrors T apis
      | Inr listener \<Rightarrow> listenErrors T apis)"

text \<open>The listeners of the endpoints whose pipe can be listened on, in endpoint order.\<close>

fun listenersCreated :: "'l Transport \<Rightarrow> VersionedAPI list \<Rightarrow> 'l list" where
  "listenersCreated T [] = []"
| "listenersCreated T (api # apis) =
     (case ListenPipe T (pipeOf T api) of
        Inl err \<Rightarrow> listenersCreated T apis
      | Inr listener \<Rightarrow> listener # listenersCreated T apis)"

definition slotOf :: "'l Transport \<Rightarrow> VersionedAPI \<Rightarrow> 'l option" where
  "slotOf T api =
     (case ListenPipe T (pipeOf T api) of Inl err \<Rightarrow> None | Inr listener \<Rightarrow> Some listener)"

subsection \<open>Example server\<close>

text \<open>Four endpoints; the pipes of the second and the fourth cannot be created.\<close>

definition exampleTransport :: "nat Transport" where
  "exampleTransport =
     \<lparr> PipePath = (\<lambda>g v. ''csi-proxy-'' @ g @ ''-'' @ v),
       ListenPipe = (\<lambda>p. if p = ''csi-proxy-disk-v1'' then Inr 7
                          else if p = ''csi-proxy-smb-v1'' then Inr 9
                          else Inl (External (''cannot listen on '' @ p))) \<rparr>"

definition exampleServer :: Server where
  "exampleServer =
     \<lparr> versionedAPIs = [\<lparr>Group = ''disk'', Version = ''v1''\<rparr>,
                        \<lparr>Group = ''volume'', Version = ''v1''\<rparr>,
                        \<lparr>Group = ''smb'', Version = ''v1''\<rparr>,
                        \<lparr>Group = ''iscsi'', Version = ''v2''\<rparr>],
       started = False, grpcServers = [] \<rparr>"

definition noEffects :: "nat Effects" where
  "noEffects = \<lparr> closedListeners = [], serveLoops = [], stoppedServers = [] \<rparr>"

section \<open>WMI queries (pkg/cim, pkg/smb/hostapi)\<close>

text \<open>
  The WMI collaborator. A query is the class name, the select list and the
  (property, value) filters it was built from; \<^verbatim>\<open>cim.QueryInstances\<close> is not among
  the sources and is a parameter of every function that calls it.
\<close>

datatype namespace = WMINamespaceStorage | WMINamespaceSmb

record WmiQuery =
  className :: string
  selectList :: "string list"
  filters :: "(string \<times> string) list"

definition NewWmiQueryWithSelectList ::
  "string \<Rightarrow> string list \<Rightarrow> (string \<times> string) list \<Rightarrow> WmiQuery" where
  "NewWmiQueryWithSelectList cls selectorList fs =
     \<lparr> className = cls, selectList = selectorList, filters = fs \<rparr>"

definition NewWmiQuery :: "string \<Rightarrow> (string \<times> string) list \<Rightarrow> WmiQuery" where
  "NewWmiQuery cls fs = \<lparr> className = cls, selectList = [], filters = fs \<rparr>"

type_synonym 'r QueryInstances = "namespace \<Rightarrow> WmiQuery \<Rightarrow> error + 'r list"

text \<open>A Go call either returns or panics (with the message of the runtime error).\<close>

datatype 'a GoResult = Panic string | Return 'a

definition indexOutOfRange :: string where
  "indexOutOfRange = ''runtime error: index out of range [0] with length 0''"

text \<open>\<^verbatim>\<open>strconv.Itoa\<close>: the decimal digits of an integer.\<close>

function digitsOf :: "nat \<Rightarrow> string" where
  "digitsOf n =
     (if n < 10 then [''0123456789'' ! n]
      else digitsOf (n div 10) @ [''0123456789'' ! (n mod 10)])"
  by pat_completeness auto
termination
  by (relation "measure id") auto

definition Itoa :: "int \<Rightarrow> string" where
  "Itoa i = (if i < 0 then CHR ''-'' # digitsOf (nat (- i)) else digitsOf (nat i))"

subsection \<open>QueryISCSITargetPortal\<close>

definition portalQuery :: "string \<Rightarrow> 32 word \<Rightarrow> string list \<Rightarrow> WmiQuery" where
  "portalQuery address port selectorList =
     NewWmiQueryWithSelectList ''MSFT_iSCSITargetPortal'' selectorList
       [(''TargetPortalAddress'', address),
        (''TargetPortalPortNumber'', Itoa (uint port))]"

text \<open>
  \<^verbatim>\<open>instances[0]\<close> is taken with no look at the length of \<^verbatim>\<open>instances\<close>: on the
  empty slice the Go runtime panics. The conversion
  \<^verbatim>\<open>storage.NewMSFT_iSCSITargetPortalEx1\<close> is a parameter.
\<close>

definition QueryISCSITargetPortal ::
  "'r QueryInstances \<Rightarrow> ('r \<Rightarrow> error + 'p) \<Rightarrow> string \<Rightarrow> 32 word \<Rightarrow> string list
     \<Rightarrow> (error + 'p) GoResult"
where
  "QueryISCSITargetPortal QueryInstances NewMSFT_iSCSITargetPortalEx1 address port selectorList =
     (case QueryInstances WMINamespaceStorage (portalQuery address port selectorList) of
        Inl err \<Rightarrow> Return (Inl err)
      | Inr instances \<Rightarrow>
          (case instances of
             [] \<Rightarrow> Panic indexOutOfRange
           | instance0 # rest \<Rightarrow>
               (case NewMSFT_iSCSITargetPortalEx1 instance0 of
                  Inl err \<Rightarrow>
                    Return (Inl (Errorf
                      ''failed to query iSCSI target portal at (%s:%d). error: %v'' (Some err)))
                | Inr targetPortal \<Rightarrow> Return (Inr targetPortal))))"

subsection \<open>RemoveSMBGlobalMapping\<close>

text \<open>\<^verbatim>\<open>strings.ReplaceAll\<close> of a backslash by two: every backslash is doubled.\<close>

definition remotePathForQuery :: "string \<Rightarrow> string" where
  "remotePathForQuery remotePath =
     concat (map (\<lambda>c. if c = CHR 0x5C then [CHR 0x5C, CHR 0x5C] else [c]) remotePath)"

definition smbQuery :: "string \<Rightarrow> WmiQuery" where
  "smbQuery remotePath =
     NewWmiQuery ''MSFT_SmbGlobalMapping'' [(''RemotePath'', remotePathForQuery remotePath)]"

text \<open>
  \<^verbatim>\<open>instances[0].InvokeMethod("Remove", true)\<close>, again with no look at the length.
  \<^verbatim>\<open>InvokeMethod\<close> is a parameter: the instance and the method name give the error
  it returns, if any.
\<close>

definition RemoveSMBGlobalMapping ::
  "'r QueryInstances \<Rightarrow> ('r \<Rightarrow> string \<Rightarrow> error option) \<Rightarrow> string \<Rightarrow> (error option) GoResult"
where
  "RemoveSMBGlobalMapping QueryInstances InvokeMethod remotePath =
     (case QueryInstances WMINamespaceSmb (smbQuery remotePath) of
        Inl err \<Rightarrow> Return (Some err)
      | Inr instances \<Rightarrow>
          (case instances of
             [] \<Rightarrow> Panic indexOutOfRange
           | instance0 # rest \<Rightarrow>
               (case InvokeMethod instance0 ''Remove'' of
                  Some err \<Rightarrow>
                    Return (Some (Errorf ''error remove smb mapping '%s'. err: %v'' (Some err)))
                | None \<Rightarrow> Return None)))"

text \<open>A host on which no instance matches any query.\<close>

definition noInstances :: "nat QueryInstances" where
  "noInstances ns q = Inr []"

subsection \<open>Mapping tables and correlation\<close>

text \<open>
  \<^verbatim>\<open>FindInstancesByMapping\<close> and \<^verbatim>\<open>ListWMIInstanceMappings\<close> are called by the
  sources (\<^verbatim>\<open>ListISCSITargetsByTargetPortalWithFilters\<close>, \<^verbatim>\<open>ListDisksByTarget\<close>,
  \<^verbatim>\<open>ListISCSITargetToISCSITargetPortalMapping\<close>) and defined in a file that is not
  among them. The callers fix their types: an indexer returns a string or an error,
  and a mapping table is Go's \<^verbatim>\<open>map[string]string\<close>, a map with at most one value for
  a key.
\<close>

type_synonym 'r InstanceIndexer = "'r \<Rightarrow> error + string"

datatype 'r correlationError = KeyExtractionError 'r | AssociationQueryError error

text \<open>
  Modelled from the spec: the key extraction of \<^verbatim>\<open>FindInstancesByMapping\<close> and
  \<^verbatim>\<open>ListWMIInstanceMappings\<close> (missing from the sources). Every record must yield a
  non-empty key, or the operation fails with a \<open>KeyExtractionError\<close> that identifies
  the record.
\<close>

definition extractKey :: "'r InstanceIndexer \<Rightarrow> 'r \<Rightarrow> 'r correlationError + string" where
  "extractKey indexer r =
     (case indexer r of
        Inl err \<Rightarrow> Inl (KeyExtractionError r)
      | Inr key \<Rightarrow> if key = [] then Inl (KeyExtractionError r) else Inr key)"

text \<open>
  Modelled from the spec: the first step of \<^verbatim>\<open>FindInstancesByMapping\<close> (missing from
  the sources), which builds the set of reference keys by applying the reference
  indexer to each reference record, deduplicated.
\<close>

fun referenceKeys :: "'r InstanceIndexer \<Rightarrow> 'r list \<Rightarrow> 'r correlationError + string list" where
  "referenceKeys indexer [] = Inr []"
| "referenceKeys indexer (r # rs) =
     (case extractKey indexer r of
        Inl e \<Rightarrow> Inl e
      | Inr key \<Rightarrow>
          (case referenceKeys indexer rs of
             Inl e \<Rightarrow> Inl e
           | Inr keys \<Rightarrow> Inr (List.insert key keys)))"

text \<open>
  Modelled from the spec: the second step of \<^verbatim>\<open>FindInstancesByMapping\<close> (missing
  from the sources). For each source record it extracts the key, looks it up as the
  source side of the table, and keeps the record iff a resulting target key is a
  member of the reference-key set.
\<close>

fun keepCorrelated ::
  "'r InstanceIndexer \<Rightarrow> (string \<rightharpoonup> string) \<Rightarrow> string list \<Rightarrow> 'r list
     \<Rightarrow> 'r correlationError + 'r list"
where
  "keepCorrelated indexer table refKeys [] = Inr []"
| "keepCorrelated indexer table refKeys (r # rs) =
     (case extractKey indexer r of
        Inl e \<Rightarrow> Inl e
      | Inr key \<Rightarrow>
          (case keepCorrelated indexer table refKeys rs of
             Inl e \<Rightarrow> Inl e
           | Inr kept \<Rightarrow>
               Inr (if (case table key of None \<Rightarrow> False | Some target \<Rightarrow> target \<in> set refKeys)
                    then r # kept else kept)))"

text \<open>
  Modelled from the spec: \<^verbatim>\<open>FindInstancesByMapping\<close> (missing from the sources), the
  spec's \<^verbatim>\<open>correlate(sourceRecords, sourceIndexer, referenceRecords, referenceIndexer,
  mappingTable)\<close>, with the arguments in the order its callers pass them.
\<close>

definition FindInstancesByMapping ::
  "'r list \<Rightarrow> 'r InstanceIndexer \<Rightarrow> 'r list \<Rightarrow> 'r InstanceIndexer \<Rightarrow> (string \<rightharpoonup> string)
     \<Rightarrow> 'r correlationError + 'r list"
where
  "FindInstancesByMapping sourceRecords sourceIndexer referenceRecords referenceIndexer table =
     (case referenceKeys referenceIndexer referenceRecords of
        Inl e \<Rightarrow> Inl e
      | Inr refKeys \<Rightarrow> keepCorrelated sourceIndexer table refKeys sourceRecords)"

text \<open>
  Modelled from the spec: the insertion of one pair into the table by
  \<^verbatim>\<open>ListWMIInstanceMappings\<close> (missing from the sources). The table is a
  \<^verbatim>\<open>map[string]string\<close> and has room for one target key under a source key. The spec
  says that the pair is inserted and that source keys need not be unique; it does not
  say which pair the table holds once a second row brings a source key that is
  already there. That choice is the parameter \<open>replaces\<close>: \<open>replaces key old new\<close>
  tells whether the incoming target \<open>new\<close> takes the place of the stored target
  \<open>old\<close>.
\<close>

definition insertPair ::
  "(string \<Rightarrow> string \<Rightarrow> string \<Rightarrow> bool) \<Rightarrow> (string \<rightharpoonup> string) \<Rightarrow> string \<Rightarrow> string
     \<Rightarrow> (string \<rightharpoonup> string)"
where
  "insertPair replaces result key val =
     (case result key of
        None \<Rightarrow> result(key \<mapsto> val)
      | Some old \<Rightarrow> if replaces key old val then result(key \<mapsto> val) else result)"

text \<open>
  Modelled from the spec: the loop of \<^verbatim>\<open>ListWMIInstanceMappings\<close> (missing from the
  sources). For each association row it applies both indexers and inserts the pair
  into the table; a failing row discards the table.
\<close>

fun insertPairs ::
  "(string \<Rightarrow> string \<Rightarrow> string \<Rightarrow> bool) \<Rightarrow> 'r InstanceIndexer \<Rightarrow> 'r InstanceIndexer
     \<Rightarrow> 'r list \<Rightarrow> (string \<rightharpoonup> string) \<Rightarrow> 'r correlationError + (string \<rightharpoonup> string)"
where
  "insertPairs replaces keyIndexer valueIndexer [] result = Inr result"
| "insertPairs replaces keyIndexer valueIndexer (row # rows) result =
     (case extractKey keyIndexer row of
        Inl e \<Rightarrow> Inl e
      | Inr key \<Rightarrow>
          (case extractKey valueIndexer row of
             Inl e \<Rightarrow> Inl e
           | Inr val \<Rightarrow>
               insertPairs replaces keyIndexer valueIndexer rows
                 (insertPair replaces result key val)))"

text \<open>
  Modelled from the spec: \<^verbatim>\<open>ListWMIInstanceMappings\<close> (missing from the sources), the
  spec's \<^verbatim>\<open>buildMapping\<close>. It lists every record of the named association collection
  once and fails with an \<open>AssociationQueryError\<close> if the listing fails.
\<close>

definition ListWMIInstanceMappings ::
  "(string \<Rightarrow> string \<Rightarrow> string \<Rightarrow> bool) \<Rightarrow> 'r QueryInstances \<Rightarrow> namespace \<Rightarrow> string
     \<Rightarrow> string list \<Rightarrow> 'r InstanceIndexer \<Rightarrow> 'r InstanceIndexer
     \<Rightarrow> 'r correlationError + (string \<rightharpoonup> string)"
where
  "ListWMIInstanceMappings replaces QueryInstances ns mappingClassName selectorList
       keyIndexer valueIndexer =
     (case QueryInstances ns (NewWmiQueryWithSelectList mappingClassName selectorList []) of
        Inl err \<Rightarrow> Inl (AssociationQueryError err)
      | Inr rows \<Rightarrow> insertPairs replaces keyIndexer valueIndexer rows Map.empty)"

text \<open>
  \<^verbatim>\<open>ListISCSITargetToISCSITargetPortalMapping\<close>, as in the sources: one call of
  \<^verbatim>\<open>ListWMIInstanceMappings\<close>, whose result of type \<^verbatim>\<open>map[string]string\<close> it
  returns. The two indexers it passes (\<^verbatim>\<open>mappingISCSITargetIndexer\<close>,
  \<^verbatim>\<open>mappingISCSITargetPortalIndexer\<close>) are built by a function that is not among
  the sources and are parameters.
\<close>

definition ListISCSITargetToISCSITargetPortalMapping ::
  "(string \<Rightarrow> string \<Rightarrow> string \<Rightarrow> bool) \<Rightarrow> 'r QueryInstances
     \<Rightarrow> 'r InstanceIndexer \<Rightarrow> 'r InstanceIndexer
     \<Rightarrow> 'r correlationError + (string \<rightharpoonup> string)"
where
  "ListISCSITargetToISCSITargetPortalMapping replaces QueryInstances
       mappingISCSITargetIndexer mappingISCSITargetPortalIndexer =
     ListWMIInstanceMappings replaces QueryInstances WMINamespaceStorage
       ''MSFT_iSCSITargetToiSCSITargetPortal'' []
       mappingISCSITargetIndexer mappingISCSITargetPortalIndexer"

subsection \<open>Notions used to state the properties\<close>

text \<open>The indexer yields a non-empty key for the record.\<close>

definition yieldsKey :: "'r InstanceIndexer \<Rightarrow> 'r \<Rightarrow> bool" where
  "yieldsKey indexer r = (case indexer r of Inl err \<Rightarrow> False | Inr key \<Rightarrow> key \<noteq> [])"

text \<open>
  The record's key has an entry in the table, and the entry is the key of some
  reference record.
\<close>

definition correlated ::
  "'r InstanceIndexer \<Rightarrow> 'r list \<Rightarrow> 'r InstanceIndexer \<Rightarrow> (string \<rightharpoonup> string) \<Rightarrow> 'r \<Rightarrow> bool"
where
  "correlated sourceIndexer referenceRecords referenceIndexer table r =
     (case sourceIndexer r of
        Inl err \<Rightarrow> False
      | Inr key \<Rightarrow>
          (case table key of
             None \<Rightarrow> False
           | Some target \<Rightarrow> Inr target \<in> set (map referenceIndexer referenceRecords)))"

text \<open>The record's key has an entry in the table.\<close>

definition hasEntry :: "'r InstanceIndexer \<Rightarrow> (string \<rightharpoonup> string) \<Rightarrow> 'r \<Rightarrow> bool" where
  "hasEntry sourceIndexer table r =
     (case sourceIndexer r of Inl err \<Rightarrow> False | Inr key \<Rightarrow> table key \<noteq> None)"

text \<open>The (source key, target key) pair of an association row.\<close>

definition pairOf :: "'r InstanceIndexer \<Rightarrow> 'r InstanceIndexer \<Rightarrow> 'r \<Rightarrow> string \<times> string" where
  "pairOf keyIndexer valueIndexer row = (projr (keyIndexer row), projr (valueIndexer row))"

text \<open>The target keys that a lookup of a source key in the table yields.\<close>

definition targetsOf :: "(string \<rightharpoonup> string) \<Rightarrow> string \<Rightarrow> string list" where
  "targetsOf table key = (case table key of None \<Rightarrow> [] | Some target \<Rightarrow> [target])"

subsection \<open>Example association rows and records\<close>

text \<open>An association row is the pair of its two sides; a record is its key and a number.\<close>

definition sourceSide :: "(string \<times> string) InstanceIndexer" where
  "sourceSide row = Inr (fst row)"

definition targetSide :: "(string \<times> string) InstanceIndexer" where
  "targetSide row = Inr (snd row)"

text \<open>Target T1 is associated with the two portals P1 and P2, target T2 with P1.\<close>

definition twoPortalRows :: "(string \<times> string) list" where
  "twoPortalRows = [(''T1'', ''P1''), (''T1'', ''P2''), (''T2'', ''P1'')]"

definition twoPortalHost :: "(string \<times> string) QueryInstances" where
  "twoPortalHost ns q =
     (if ns = WMINamespaceStorage \<and> className q = ''MSFT_iSCSITargetToiSCSITargetPortal''
      then Inr twoPortalRows
      else Inl (External ''invalid class''))"

definition keyOf :: "(string \<times> nat) InstanceIndexer" where
  "keyOf r = Inr (fst r)"

definition exampleTable :: "string \<rightharpoonup> string" where
  "exampleTable = [''T1'' \<mapsto> ''P1'', ''T2'' \<mapsto> ''P2'', ''T3'' \<mapsto> ''P3'']"

text \<open>The (source key, target key) pairs of the association rows, in row order.\<close>

definition pairsOf ::
  "'r InstanceIndexer \<Rightarrow> 'r InstanceIndexer \<Rightarrow> 'r list \<Rightarrow> (string \<times> string) list" where
  "pairsOf keyIndexer valueIndexer rows = map (pairOf keyIndexer valueIndexer) rows"

text \<open>A host with one association row for each of the targets T1 and T2.\<close>

definition onePortalHost :: "(string \<times> string) QueryInstances" where
  "onePortalHost ns q = Inr [(''T1'', ''P1''), (''T2'', ''P1'')]"

text \<open>The two plain choices on a repeated source key: keep the stored pair, or replace it.\<close>

definition keepStored :: "string \<Rightarrow> string \<Rightarrow> string \<Rightarrow> bool" where
  "keepStored key old new = False"

definition takeIncoming :: "string \<Rightarrow> string \<Rightarrow> string \<Rightarrow> bool" where
  "takeIncoming key old new = True"

text \<open>The table after the pairs have been inserted into it one after the other.\<close>

fun insertAll ::
  "(string \<Rightarrow> string \<Rightarrow> string \<Rightarrow> bool) \<Rightarrow> (string \<times> string) list \<Rightarrow> (string \<rightharpoonup> string)
     \<Rightarrow> (string \<rightharpoonup> string)"
where
  "insertAll replaces [] table = table"
| "insertAll replaces ((key, val) # pairs) table =
     insertAll replaces pairs (insertPair replaces table key val)"

section \<open>Proofs: waiting for a service state\<close>

lemma pollLoop_calls:
  "count_list (snd (snd (pollLoop chk n s calls))) TransitionCall
     = count_list calls TransitionCall"
  by (induction n arbitrary: s calls) (auto split: prod.splits option.splits)

lemma pollLoop_timeout:
  "notDoneFor chk n s \<Longrightarrow> chk (afterChecks chk n s) = ((d, st, h, e), s')
   \<Longrightarrow> pollLoop chk n s calls = ((st, Some Timedout), s', calls @ replicate (Suc n) CheckCall)"
proof (induction n arbitrary: s calls)
  case 0
  then show ?case by simp
next
  case (Suc n)
  then show ?case
    by (auto split: prod.splits option.splits simp: replicate_append_same)
qed

lemma pollLoop_check_error:
  "k < n \<Longrightarrow> notDoneFor chk k s \<Longrightarrow> chk (afterChecks chk k s) = ((d, st, h, Some e), s')
   \<Longrightarrow> pollLoop chk n s calls
       = ((st, Some (Errorf ''check failed: %w'' (Some e))), s',
          calls @ replicate (Suc k) CheckCall)"
proof (induction k arbitrary: n s calls)
  case 0
  then obtain n' where "n = Suc n'" by (cases n) auto
  with 0 show ?case by simp
next
  case (Suc k)
  then obtain n' where n: "n = Suc n'" and "k < n'" by (cases n) auto
  with Suc show ?case
    by (auto split: prod.splits option.splits simp: replicate_append_same)
qed

text \<open>
  C5. Whatever the two functions and the timing are, \<^verbatim>\<open>stateTransition\<close> is
  invoked at most once in a call of \<^verbatim>\<open>WaitUntilServiceState\<close>. When the first
  \<^verbatim>\<open>stateCheck\<close> reports \<^verbatim>\<open>done\<close> or returns an error, the call returns the state
  and the error of that check, that check is the only call made, and so
  \<^verbatim>\<open>stateTransition\<close> is not invoked.
\<close>

theorem WaitUntilServiceState_transition_at_most_once:
  "count_list (snd (snd (WaitUntilServiceState tr chk ticks s))) TransitionCall \<le> 1
   \<and> ((case fst (chk s) of (done, state, service, err) \<Rightarrow> done \<or> err \<noteq> None)
        \<longrightarrow> WaitUntilServiceState tr chk ticks s
              = ((case fst (chk s) of (done, state, service, err) \<Rightarrow> (state, err)),
                 snd (chk s), [CheckCall])
          \<and> count_list (snd (snd (WaitUntilServiceState tr chk ticks s))) TransitionCall = 0)"
  unfolding WaitUntilServiceState_def
  by (auto split: prod.splits option.splits simp: pollLoop_calls)

text \<open>
  C5 on a host whose service already runs: the start is not invoked, the state of
  the host stays as the check left it.
\<close>

theorem WaitUntilServiceState_transition_at_most_once_witness:
  "count_list (snd (snd (WaitUntilServiceState startTransition slowStartCheck 5 3)))
       TransitionCall \<le> 1
   \<and> WaitUntilServiceState startTransition slowStartCheck 5 3
       = ((''Running'', None), 3, [CheckCall])
   \<and> count_list (snd (snd (WaitUntilServiceState startTransition slowStartCheck 5 3)))
       TransitionCall = 0"
  using WaitUntilServiceState_transition_at_most_once [of startTransition slowStartCheck 5 3]
  by (simp add: slowStartCheck_def)

text \<open>
  C6. Let the first check report not done, the transition succeed, and the timeout
  fire after \<open>n\<close> ticks. If none of the \<open>n\<close> tick checks reports done or fails, one
  more check is made and its state is returned with \<open>Timedout\<close>, whatever that last
  check reports. If instead the check of tick \<open>k + 1 \<le> n\<close> fails with \<open>e'\<close>, the call
  returns at once, after that check, with the error \<open>e'\<close> wrapped by
  \<^verbatim>\<open>fmt.Errorf("check failed: %w", err)\<close>, which is not \<open>Timedout\<close>.
\<close>

theorem WaitUntilServiceState_timeout:
  assumes "chk s = ((False, stA, h, None), sA)" and "tr h sA = (None, sB)"
  shows "(notDoneFor chk n sB \<and> chk (afterChecks chk n sB) = ((d, st, h', e), sC)
            \<longrightarrow> WaitUntilServiceState tr chk n s
                  = ((st, Some Timedout), sC,
                     [CheckCall, TransitionCall] @ replicate (Suc n) CheckCall))
       \<and> (k < n \<and> notDoneFor chk k sB
            \<and> chk (afterChecks chk k sB) = ((d, st, h', Some e'), sC)
            \<longrightarrow> WaitUntilServiceState tr chk n s
                  = ((st, Some (Errorf ''check failed: %w'' (Some e'))), sC,
                     [CheckCall, TransitionCall] @ replicate (Suc k) CheckCall)
                \<and> Errorf ''check failed: %w'' (Some e') \<noteq> Timedout)"
  using assms unfolding WaitUntilServiceState_def
  by (auto simp: pollLoop_timeout pollLoop_check_error simp del: replicate_Suc)

text \<open>
  C6 on the example hosts: a timeout after one tick returns the state seen by the
  final check, and a failing check at the second tick of five returns its wrapped
  error.
\<close>

theorem WaitUntilServiceState_timeout_witness:
  "WaitUntilServiceState startTransition slowStartCheck 1 0
     = ((''Start Pending'', Some Timedout), 3,
        [CheckCall, TransitionCall, CheckCall, CheckCall])
   \<and> WaitUntilServiceState startTransition failingCheck 5 0
     = (('''', Some (Errorf ''check failed: %w'' (Some (External ''access denied'')))), 2,
        [CheckCall, TransitionCall, CheckCall, CheckCall])"
proof -
  have a: "slowStartCheck 0 = ((False, ''Stopped'', (), None), 0)"
    and b: "failingCheck 0 = ((False, ''Stopped'', (), None), 0)"
    and t: "startTransition () 0 = (None, 1)"
    by (simp_all add: slowStartCheck_def failingCheck_def startTransition_def)
  have late: "notDoneFor slowStartCheck 1 1
        \<and> slowStartCheck (afterChecks slowStartCheck 1 1)
            = ((False, ''Start Pending'', (), None), 3)"
    by (simp add: slowStartCheck_def)
  have timeout: "WaitUntilServiceState startTransition slowStartCheck 1 0
     = ((''Start Pending'', Some Timedout), 3,
        [CheckCall, TransitionCall, CheckCall, CheckCall])"
    using WaitUntilServiceState_timeout
      [where chk = slowStartCheck and tr = startTransition and s = 0 and sA = 0
         and sB = 1 and n = 1 and st = "''Start Pending''" and sC = 3 and e = None
         and d = False and h = "()" and h' = "()" and stA = "''Stopped''"]
      a t late
    by (simp add: numeral_2_eq_2)
  have broken: "(1::nat) < 5 \<and> notDoneFor failingCheck 1 1
        \<and> failingCheck (afterChecks failingCheck 1 1)
            = ((False, '''', (), Some (External ''access denied'')), 2)"
    by (simp add: failingCheck_def)
  have "WaitUntilServiceState startTransition failingCheck 5 0
     = (('''', Some (Errorf ''check failed: %w'' (Some (External ''access denied'')))), 2,
        [CheckCall, TransitionCall, CheckCall, CheckCall])"
    using WaitUntilServiceState_timeout
      [where chk = failingCheck and tr = startTransition and s = 0 and sA = 0
         and sB = 1 and n = 5 and k = 1 and st = "''''" and sC = 2
         and e' = "External ''access denied''"
         and d = False and h = "()" and h' = "()" and stA = "''Stopped''"]
      b t broken
    by (simp add: numeral_2_eq_2)
  with timeout show ?thesis by simp
qed

section \<open>Proofs: service dependents\<close>

text \<open>One turn of the loop, by the case it takes.\<close>

lemma checkLoop_exhausted:
  "\<not> i < length q \<Longrightarrow> checkLoop w i q names m = Some (names, None)"
  by (subst checkLoop.simps) simp

lemma checkLoop_skip:
  "i < length q \<Longrightarrow> GetPropertyName w (q ! i) = Inr n
   \<Longrightarrow> GetPropertyState w (q ! i) = Inr st \<Longrightarrow> st \<noteq> serviceStateRunning
   \<Longrightarrow> checkLoop w i q names m = checkLoop w (Suc i) q names m"
  by (subst checkLoop.simps) simp

lemma checkLoop_expand:
  "i < length q \<Longrightarrow> GetPropertyName w (q ! i) = Inr n
   \<Longrightarrow> GetPropertyState w (q ! i) = Inr serviceStateRunning
   \<Longrightarrow> GetDependents w (q ! i) = Inr ds
   \<Longrightarrow> checkLoop w i q names m = checkLoop w (Suc i) (q @ ds) (n # names) (m(n \<mapsto> n))"
  by (subst checkLoop.simps) simp

lemmas servicesOf_simps =
  servicesOf_def lookupOr_def serviceStateRunning_def nth_append

text \<open>
  C1 (the code at the failing input). On the diamond the traversal returns, and D,
  reached once through B and once through C, stands twice in the returned list: the
  list is not duplicate-free.
\<close>

theorem GetDependentsForService_diamond_duplicate:
  "GetDependentsForService diamondServices ''A''
     = Some ([''D'', ''D'', ''C'', ''B'', ''A''], None)
   \<and> \<not> distinct [''D'', ''D'', ''C'', ''B'', ''A'']"
  unfolding GetDependentsForService_def diamondServices_def
  by (simp add: checkLoop_exhausted checkLoop_skip checkLoop_expand servicesOf_simps)

text \<open>
  On the cycle every handle in the queue is A or B, both run, and each turn appends
  one more handle: the index never reaches the end of the queue.
\<close>

lemma checkLoop_cycle_never_returns:
  "checkLoop w i q names m = Some r \<Longrightarrow> w = cycleServices \<Longrightarrow> i < length q
   \<Longrightarrow> set q \<subseteq> {''A'', ''B''} \<Longrightarrow> False"
proof (induction rule: checkLoop.raw_induct [rotated 1, consumes 1])
  case (1 f w i q names m r)
  from \<open>i < length q\<close> \<open>set q \<subseteq> {''A'', ''B''}\<close>
  have qi: "q ! i = ''A'' \<or> q ! i = ''B''"
    using nth_mem by fastforce
  let ?ds = "if q ! i = ''A'' then [''B''] else [''A'']"
  from qi have deps: "GetDependents w (q ! i) = Inr ?ds"
    and name: "GetPropertyName w (q ! i) = Inr (q ! i)"
    and state: "GetPropertyState w (q ! i) = Inr serviceStateRunning"
    unfolding \<open>w = cycleServices\<close> cycleServices_def
    by (auto simp: servicesOf_simps)
  from "1.hyps" \<open>i < length q\<close> deps name state
  have "f w (i + 1) (q @ ?ds) (q ! i # names) (m(q ! i \<mapsto> q ! i)) = Some r"
    by (simp split: if_splits)
  moreover have "i + 1 < length (q @ ?ds)"
    using \<open>i < length q\<close> by simp
  moreover have "set (q @ ?ds) \<subseteq> {''A'', ''B''}"
    using \<open>set q \<subseteq> {''A'', ''B''}\<close> by simp
  ultimately show ?case
    using "1.IH" \<open>w = cycleServices\<close> by blast
qed

text \<open>
  C2 (the code at the failing input). On the cycle of two running services the
  call never returns.
\<close>

theorem GetDependentsForService_cycle_diverges:
  "GetDependentsForService cycleServices ''A'' = None"
proof (cases "GetDependentsForService cycleServices ''A''")
  case None
  then show ?thesis .
next
  case (Some r)
  then have "checkLoop cycleServices 0 [''A''] [] Map.empty = Some r"
    by (simp add: GetDependentsForService_def cycleServices_def servicesOf_def)
  from checkLoop_cycle_never_returns [OF this] show ?thesis
    by simp
qed

text \<open>
  Every name in the returned list, also in the list returned beside an error, is
  the name of a service that was observed running.
\<close>

lemma checkLoop_names_running:
  "checkLoop w i q names m = Some r \<Longrightarrow> list_all (observedRunning w) names
   \<Longrightarrow> list_all (observedRunning w) (fst r)"
proof (induction rule: checkLoop.raw_induct [rotated 1, consumes 1])
  case (1 f w i q names m r)
  show ?case
  proof (cases "i < length q")
    case False
    with "1.hyps" "1.prems" show ?thesis by auto
  next
    case True
    show ?thesis
    proof (cases "GetPropertyName w (q ! i)")
      case (Inl e)
      with True "1.hyps" "1.prems" show ?thesis by auto
    next
      case name: (Inr n)
      show ?thesis
      proof (cases "GetPropertyState w (q ! i)")
        case (Inl e)
        with True name "1.hyps" "1.prems" show ?thesis by auto
      next
        case state: (Inr st)
        show ?thesis
        proof (cases "st = serviceStateRunning")
          case False
          with True name state "1.hyps" have "f w (i + 1) q names m = Some r" by simp
          from "1.IH" [OF this "1.prems"] show ?thesis .
        next
          case run: True
          with name state have on: "observedRunning w n"
            unfolding observedRunning_def by blast
          show ?thesis
          proof (cases "GetDependents w (q ! i)")
            case (Inl e)
            with True name state run on "1.hyps" "1.prems" show ?thesis by auto
          next
            case (Inr ds)
            with True name state run "1.hyps"
            have "f w (i + 1) (q @ ds) (n # names) (m(n \<mapsto> n)) = Some r" by simp
            from "1.IH" [OF this] on "1.prems" show ?thesis by simp
          qed
        qed
      qed
    qed
  qed
qed

text \<open>The result list only grows: names recorded so far stay in the returned list.\<close>

lemma checkLoop_names_kept:
  "checkLoop w i q names m = Some r \<Longrightarrow> set names \<subseteq> set (fst r)"
proof (induction rule: checkLoop.raw_induct [rotated 1, consumes 1])
  case (1 f w i q names m r)
  show ?case
  proof (cases "i < length q")
    case False
    with "1.hyps" show ?thesis by auto
  next
    case True
    show ?thesis
    proof (cases "GetPropertyName w (q ! i)")
      case (Inl e)
      with True "1.hyps" show ?thesis by auto
    next
      case name: (Inr n)
      show ?thesis
      proof (cases "GetPropertyState w (q ! i)")
        case (Inl e)
        with True name "1.hyps" show ?thesis by auto
      next
        case state: (Inr st)
        show ?thesis
        proof (cases "st = serviceStateRunning")
          case False
          with True name state "1.hyps" have "f w (i + 1) q names m = Some r" by simp
          from "1.IH" [OF this] show ?thesis .
        next
          case run: True
          show ?thesis
          proof (cases "GetDependents w (q ! i)")
            case (Inl e)
            with True name state run "1.hyps" show ?thesis by auto
          next
            case (Inr ds)
            with True name state run "1.hyps"
            have "f w (i + 1) (q @ ds) (n # names) (m(n \<mapsto> n)) = Some r" by simp
            from "1.IH" [OF this] show ?thesis by simp
          qed
        qed
      qed
    qed
  qed
qed

text \<open>
  The order of the result. While the loop runs, every recorded name belongs to a
  running service whose dependents are still waiting in the queue or settled before
  it; skipping a service that does not run and recording one that runs both keep
  this.
\<close>

lemma settledBefore_mono:
  "settledBefore w before d \<Longrightarrow> set before \<subseteq> set before' \<Longrightarrow> settledBefore w before' d"
  by (auto simp: settledBefore_def split: sum.splits if_splits)

lemma drop_as_insert: "i < length q \<Longrightarrow> set (drop i q) = insert (q ! i) (set (drop (Suc i) q))"
  by (simp add: Cons_nth_drop_Suc [symmetric])

lemma placed_skip:
  assumes "i < length q" and "GetPropertyName w (q ! i) = Inr n"
    and "GetPropertyState w (q ! i) = Inr st" and "st \<noteq> serviceStateRunning"
    and "placed w (set (drop i q)) names"
  shows "placed w (set (drop (Suc i) q)) names"
  unfolding placed_def
proof (intro allI impI)
  fix p assume "p < length names"
  with assms(5) obtain h ds where h: "GetPropertyName w h = Inr (names ! p)"
    "GetPropertyState w h = Inr serviceStateRunning" "GetDependents w h = Inr ds"
    and ds: "\<forall>d \<in> set ds. d \<in> set (drop i q) \<or> settledBefore w (take p names) d"
    unfolding placed_def by blast
  have "d \<in> set (drop (Suc i) q) \<or> settledBefore w (take p names) d" if "d \<in> set ds" for d
  proof (cases "d = q ! i")
    case True
    with assms(2,3,4) have "settledBefore w (take p names) d"
      by (simp add: settledBefore_def)
    then show ?thesis ..
  next
    case False
    with ds that drop_as_insert [OF assms(1)] show ?thesis by auto
  qed
  with h show "\<exists>h ds. GetPropertyName w h = Inr (names ! p)
          \<and> GetPropertyState w h = Inr serviceStateRunning
          \<and> GetDependents w h = Inr ds
          \<and> (\<forall>d \<in> set ds. d \<in> set (drop (Suc i) q) \<or> settledBefore w (take p names) d)"
    by blast
qed

lemma placed_expand:
  assumes "i < length q" and "GetPropertyName w (q ! i) = Inr n"
    and "GetPropertyState w (q ! i) = Inr serviceStateRunning"
    and "GetDependents w (q ! i) = Inr ds0"
    and "placed w (set (drop i q)) names"
  shows "placed w (set (drop (Suc i) (q @ ds0))) (n # names)"
  unfolding placed_def
proof (intro allI impI)
  fix p assume p: "p < length (n # names)"
  from assms(1) have pending: "set (drop (Suc i) (q @ ds0)) = set (drop (Suc i) q) \<union> set ds0"
    by simp
  show "\<exists>h ds. GetPropertyName w h = Inr ((n # names) ! p)
          \<and> GetPropertyState w h = Inr serviceStateRunning
          \<and> GetDependents w h = Inr ds
          \<and> (\<forall>d \<in> set ds. d \<in> set (drop (Suc i) (q @ ds0))
                \<or> settledBefore w (take p (n # names)) d)"
  proof (cases p)
    case 0
    with assms(2,3,4) pending show ?thesis by auto
  next
    case (Suc p')
    with p have "p' < length names" by simp
    with assms(5) obtain h ds where h: "GetPropertyName w h = Inr (names ! p')"
      "GetPropertyState w h = Inr serviceStateRunning" "GetDependents w h = Inr ds"
      and ds: "\<forall>d \<in> set ds. d \<in> set (drop i q) \<or> settledBefore w (take p' names) d"
      unfolding placed_def by blast
    have "d \<in> set (drop (Suc i) (q @ ds0)) \<or> settledBefore w (n # take p' names) d"
      if "d \<in> set ds" for d
    proof (cases "d = q ! i")
      case True
      with assms(2,3) have "settledBefore w (n # take p' names) d"
        by (simp add: settledBefore_def)
      then show ?thesis ..
    next
      case False
      from ds that have "d \<in> set (drop i q) \<or> settledBefore w (take p' names) d" by blast
      then show ?thesis
      proof
        assume "d \<in> set (drop i q)"
        with False drop_as_insert [OF assms(1)] pending show ?thesis by auto
      next
        assume "settledBefore w (take p' names) d"
        from settledBefore_mono [OF this, of "n # take p' names"] show ?thesis by auto
      qed
    qed
    with h Suc show ?thesis by auto
  qed
qed

lemma checkLoop_placed:
  "checkLoop w i q names m = Some r \<Longrightarrow> placed w (set (drop i q)) names
   \<Longrightarrow> snd r = None \<Longrightarrow> placed w {} (fst r)"
proof (induction rule: checkLoop.raw_induct [rotated 1, consumes 1])
  case (1 f w i q names m r)
  show ?case
  proof (cases "i < length q")
    case False
    with "1.hyps" "1.prems" show ?thesis by auto
  next
    case True
    show ?thesis
    proof (cases "GetPropertyName w (q ! i)")
      case (Inl e)
      with True "1.hyps" "1.prems" show ?thesis by auto
    next
      case name: (Inr n)
      show ?thesis
      proof (cases "GetPropertyState w (q ! i)")
        case (Inl e)
        with True name "1.hyps" "1.prems" show ?thesis by auto
      next
        case state: (Inr st)
        show ?thesis
        proof (cases "st = serviceStateRunning")
          case False
          with True name state "1.hyps" have "f w (i + 1) q names m = Some r" by simp
          moreover from placed_skip [OF True name state False "1.prems"(1)]
          have "placed w (set (drop (i + 1) q)) names" by simp
          ultimately show ?thesis using "1.IH" "1.prems"(2) by blast
        next
          case run: True
          show ?thesis
          proof (cases "GetDependents w (q ! i)")
            case (Inl e)
            with True name state run "1.hyps" "1.prems" show ?thesis by auto
          next
            case (Inr ds)
            with True name state run "1.hyps"
            have "f w (i + 1) (q @ ds) (n # names) (m(n \<mapsto> n)) = Some r" by simp
            moreover from placed_expand [OF True name _ Inr "1.prems"(1)] state run
            have "placed w (set (drop (i + 1) (q @ ds))) (n # names)" by simp
            ultimately show ?thesis using "1.IH" "1.prems"(2) by blast
          qed
        qed
      qed
    qed
  qed
qed

lemma GetDependentsForService_dependentsFirst:
  assumes "GetDependentsForService w root = Some (result, None)"
  shows "dependentsFirst w result"
proof (cases "GetService w root")
  case (Inl err)
  with assms show ?thesis by (simp add: GetDependentsForService_def)
next
  case (Inr service)
  with assms have "checkLoop w 0 [service] [] Map.empty = Some (result, None)"
    by (simp add: GetDependentsForService_def)
  from checkLoop_placed [OF this] show ?thesis
    by (simp add: dependentsFirst_def placed_def)
qed

text \<open>
  With the edges A \<rightarrow> {B, C} and B \<rightarrow> {D} and the states A, B, D running and C
  stopped, D is recorded when the loop comes to it, whatever C and D have as
  dependents: the call does not return [B, A].
\<close>

lemma listedServices_record_D:
  "GetDependentsForService (listedServices depsC depsD) ''A'' \<noteq> Some ([''B'', ''A''], None)"
proof
  let ?w = "listedServices depsC depsD"
  assume "GetDependentsForService ?w ''A'' = Some ([''B'', ''A''], None)"
  then have "checkLoop ?w (Suc (Suc (Suc (Suc 0)))) ([''A'', ''B'', ''C'', ''D''] @ depsD) [''D'', ''B'', ''A'']
               [''A'' \<mapsto> ''A'', ''B'' \<mapsto> ''B'', ''D'' \<mapsto> ''D'']
             = Some ([''B'', ''A''], None)"
    unfolding GetDependentsForService_def listedServices_def
    by (simp add: checkLoop_skip checkLoop_expand servicesOf_simps)
  from checkLoop_names_kept [OF this] show False by simp
qed

text \<open>
  C4 as stated fails. Its example lists the edges A \<rightarrow> {B, C} and B \<rightarrow> {D} with A, B,
  D running and C stopped, and says that D is reachable only through C; but D is a
  dependent of the running B, so no graph is as the example says. With the listed
  edges and states the running B is expanded and D is recorded: the result is
  [D, B, A], and it is not [B, A] whatever dependents C and D have. Nor does
  prepending put every name of a dependent before the service it depends on: on the
  triangle, where C is a dependent of both A and B, C is recorded twice and the
  result is [C, B, C, A], with one C after B.
\<close>

theorem GetDependentsForService_listed_edges_counterexample:
  "GetDependentsForService viaBServices ''A'' = Some ([''D'', ''B'', ''A''], None)
   \<and> GetDependentsForService viaBServices ''A'' \<noteq> Some ([''B'', ''A''], None)
   \<and> (\<forall>depsC depsD.
         GetDependentsForService (listedServices depsC depsD) ''A''
           \<noteq> Some ([''B'', ''A''], None))
   \<and> GetDependentsForService triangleServices ''A''
       = Some ([''C'', ''B'', ''C'', ''A''], None)
   \<and> GetDependents triangleServices ''B'' = Inr [''C'']"
proof -
  have "GetDependentsForService viaBServices ''A'' = Some ([''D'', ''B'', ''A''], None)"
    unfolding GetDependentsForService_def viaBServices_def
    by (simp add: checkLoop_exhausted checkLoop_skip checkLoop_expand servicesOf_simps)
  moreover have "GetDependentsForService triangleServices ''A''
       = Some ([''C'', ''B'', ''C'', ''A''], None)"
    unfolding GetDependentsForService_def triangleServices_def
    by (simp add: checkLoop_exhausted checkLoop_skip checkLoop_expand servicesOf_simps)
  moreover have "GetDependents triangleServices ''B'' = Inr [''C'']"
    by (simp add: triangleServices_def servicesOf_simps)
  ultimately show ?thesis
    using listedServices_record_D by simp
qed

text \<open>
  C4, amended. A dequeued service whose state is not Running is skipped: the loop
  goes on with the same queue and the same result list, so the service is not
  recorded and its dependents are not enqueued. A dequeued service whose state is
  Running is put in front of the result list and its dependents are added to the
  end of the queue. This gives a dependents-first order: in a result returned
  without an error, every name was recorded for a running service and stands after
  the names of all running dependents of that service. Every returned name, also
  beside an error, is the name of a service observed running. With the edges
  A \<rightarrow> {B, C} and C \<rightarrow> {D}, where C is stopped and A, B, D run, so that D is reachable
  only through C, the result is exactly [B, A].
\<close>

theorem GetDependentsForService_skips_inactive:
  "(i < length q \<and> GetPropertyName w (q ! i) = Inr n
      \<and> GetPropertyState w (q ! i) = Inr st \<and> st \<noteq> serviceStateRunning
      \<longrightarrow> checkLoop w i q names m = checkLoop w (Suc i) q names m)
   \<and> (i < length q \<and> GetPropertyName w (q ! i) = Inr n
      \<and> GetPropertyState w (q ! i) = Inr serviceStateRunning
      \<and> GetDependents w (q ! i) = Inr ds
      \<longrightarrow> checkLoop w i q names m
            = checkLoop w (Suc i) (q @ ds) (n # names) (m(n \<mapsto> n)))
   \<and> (GetDependentsForService w root = Some (result, None)
      \<longrightarrow> dependentsFirst w result)
   \<and> (GetDependentsForService w root = Some (result, e)
      \<longrightarrow> list_all (observedRunning w) result)
   \<and> GetDependentsForService viaCServices ''A'' = Some ([''B'', ''A''], None)"
proof -
  have names: "list_all (observedRunning w) result"
    if "GetDependentsForService w root = Some (result, e)"
  proof (cases "GetService w root")
    case (Inl err)
    with that show ?thesis by (simp add: GetDependentsForService_def)
  next
    case (Inr service)
    with that have "checkLoop w 0 [service] [] Map.empty = Some (result, e)"
      by (simp add: GetDependentsForService_def)
    from checkLoop_names_running [OF this] show ?thesis by simp
  qed
  have example: "GetDependentsForService viaCServices ''A'' = Some ([''B'', ''A''], None)"
    unfolding GetDependentsForService_def viaCServices_def
    by (simp add: checkLoop_exhausted checkLoop_skip checkLoop_expand servicesOf_simps)
  from names example show ?thesis
    using checkLoop_skip [of i q w n st names m] checkLoop_expand [of i q w n ds names m]
      GetDependentsForService_dependentsFirst [of w root result]
    by blast
qed

text \<open>
  C4, amended, on the example graph: the stopped C is skipped, the running B is
  recorded, the result [B, A] is in dependents-first order, and B and A are
  observed running.
\<close>

theorem GetDependentsForService_skips_inactive_witness:
  "checkLoop viaCServices 0 [''C''] [] Map.empty
     = checkLoop viaCServices (Suc 0) [''C''] [] Map.empty
   \<and> checkLoop viaCServices 0 [''B''] [] Map.empty
     = checkLoop viaCServices (Suc 0) ([''B''] @ []) [''B''] [''B'' \<mapsto> ''B'']
   \<and> dependentsFirst viaCServices [''B'', ''A'']
   \<and> list_all (observedRunning viaCServices) [''B'', ''A'']
   \<and> GetDependentsForService viaCServices ''A'' = Some ([''B'', ''A''], None)"
proof -
  have stopped: "0 < length [''C''] \<and> GetPropertyName viaCServices ([''C''] ! 0) = Inr ''C''
      \<and> GetPropertyState viaCServices ([''C''] ! 0) = Inr ''Stopped''
      \<and> ''Stopped'' \<noteq> serviceStateRunning"
    by (simp add: viaCServices_def servicesOf_simps)
  have running: "0 < length [''B''] \<and> GetPropertyName viaCServices ([''B''] ! 0) = Inr ''B''
      \<and> GetPropertyState viaCServices ([''B''] ! 0) = Inr serviceStateRunning
      \<and> GetDependents viaCServices ([''B''] ! 0) = Inr []"
    by (simp add: viaCServices_def servicesOf_simps)
  note skip = GetDependentsForService_skips_inactive
    [where w = viaCServices and i = 0 and q = "[''C'']" and n = "''C''"
       and st = "''Stopped''" and names = "[]" and m = Map.empty
       and root = "''A''" and result = "[''B'', ''A'']" and e = None]
  note expand = GetDependentsForService_skips_inactive
    [where w = viaCServices and i = 0 and q = "[''B'']" and n = "''B''"
       and ds = "[]" and names = "[]" and m = Map.empty]
  from skip stopped have "checkLoop viaCServices 0 [''C''] [] Map.empty
     = checkLoop viaCServices (Suc 0) [''C''] [] Map.empty"
    by blast
  moreover from expand running have "checkLoop viaCServices 0 [''B''] [] Map.empty
     = checkLoop viaCServices (Suc 0) ([''B''] @ []) [''B''] [''B'' \<mapsto> ''B'']"
    by blast
  moreover from skip have "dependentsFirst viaCServices [''B'', ''A'']"
    and "list_all (observedRunning viaCServices) [''B'', ''A'']"
    and "GetDependentsForService viaCServices ''A'' = Some ([''B'', ''A''], None)"
    by blast+
  ultimately show ?thesis by blast
qed

section \<open>Proofs: server\<close>

text \<open>
  On the fresh slice the first loop of \<^verbatim>\<open>createListeners\<close> fills the slot of every
  endpoint whose pipe was created and collects the error of every other endpoint.
\<close>

lemma listenEach_fresh:
  "listenEach T apis (length pre) (pre @ replicate (length apis) None) errs
     = (pre @ map (slotOf T) apis, errs @ listenErrors T apis)"
proof (induction apis arbitrary: pre errs)
  case Nil
  then show ?case by simp
next
  case (Cons api apis)
  show ?case
  proof (cases "ListenPipe T (pipeOf T api)")
    case (Inl err)
    with Cons.IH [of "pre @ [None]" "errs @ [err]"] show ?thesis
      by (simp add: pipeOf_def slotOf_def)
  next
    case (Inr l)
    with Cons.IH [of "pre @ [Some l]" errs] show ?thesis
      by (simp add: pipeOf_def slotOf_def list_update_append)
  qed
qed

lemma eachNonNil_slots:
  "eachNonNil (map (slotOf T) apis) made = made @ listenersCreated T apis"
  by (induction apis arbitrary: made) (auto simp: slotOf_def split: sum.splits)

lemma createListeners_eq:
  "createListeners T s eff =
     (map (slotOf T) (versionedAPIs s), listenErrors T (versionedAPIs s),
      if listenErrors T (versionedAPIs s) \<noteq> []
      then eff\<lparr>closedListeners := closedListeners eff @ listenersCreated T (versionedAPIs s)\<rparr>
      else eff)"
  using listenEach_fresh [of T "versionedAPIs s" "[]" "[]"]
  by (simp add: createListeners_def eachNonNil_slots)

lemma listenErrors_nonempty:
  "api \<in> set apis \<Longrightarrow> ListenPipe T (pipeOf T api) = Inl e \<Longrightarrow> listenErrors T apis \<noteq> []"
  by (induction apis) (auto split: sum.splits)

lemma listenErrors_length:
  "length (listenErrors T apis)
     = length (filter (\<lambda>api. isl (ListenPipe T (pipeOf T api))) apis)"
  by (induction apis) (auto split: sum.splits)

text \<open>
  C7. Let \<^verbatim>\<open>Start\<close> be called on a server that was not started, and let the listener
  of some endpoint fail to be created. Then \<^verbatim>\<open>Start\<close> returns the creation errors
  of all failing endpoints, one for each and in endpoint order; every listener that
  was created, before or after a failure, has been closed; and no serve loop has
  been launched.
\<close>

theorem Start_listen_failure:
  assumes "\<not> started s"
    and "api \<in> set (versionedAPIs s)" and "ListenPipe T (pipeOf T api) = Inl e"
  shows "Start T s eff
           = (Returns (listenErrors T (versionedAPIs s)),
              s\<lparr>started := True\<rparr>,
              eff\<lparr>closedListeners :=
                    closedListeners eff @ listenersCreated T (versionedAPIs s)\<rparr>)
         \<and> length (listenErrors T (versionedAPIs s))
             = length (filter (\<lambda>api. isl (ListenPipe T (pipeOf T api))) (versionedAPIs s))
         \<and> serveLoops (snd (snd (Start T s eff))) = serveLoops eff"
  using assms(1) listenErrors_nonempty [OF assms(2,3)]
  by (simp add: Start_def startListening_def createListeners_eq listenErrors_length)

text \<open>
  C7 on the example server: the pipes of the second and the fourth endpoint fail,
  both errors are returned, the listeners 7 and 9 of the first and the third
  endpoint are closed, and nothing is served.
\<close>

theorem Start_listen_failure_witness:
  "Start exampleTransport exampleServer noEffects
     = (Returns [External ''cannot listen on csi-proxy-volume-v1'',
                 External ''cannot listen on csi-proxy-iscsi-v2''],
        exampleServer\<lparr>started := True\<rparr>,
        noEffects\<lparr>closedListeners := [7, 9]\<rparr>)
   \<and> serveLoops (snd (snd (Start exampleTransport exampleServer noEffects))) = []"
proof -
  have "\<not> started exampleServer"
    and "\<lparr>Group = ''volume'', Version = ''v1''\<rparr> \<in> set (versionedAPIs exampleServer)"
    and "ListenPipe exampleTransport (pipeOf exampleTransport \<lparr>Group = ''volume'', Version = ''v1''\<rparr>)
           = Inl (External ''cannot listen on csi-proxy-volume-v1'')"
    by (simp_all add: exampleServer_def exampleTransport_def pipeOf_def)
  from Start_listen_failure [OF this, of noEffects] show ?thesis
    by (simp add: exampleServer_def exampleTransport_def pipeOf_def noEffects_def)
qed

text \<open>
  C8. \<^verbatim>\<open>Start\<close> on a started server returns the one error
  \<^verbatim>\<open>server already started\<close> and changes neither the server nor anything the
  first call set up. \<^verbatim>\<open>Start\<close> on a server that is not started marks it started,
  whether or not its listeners can be created, so that a second \<^verbatim>\<open>Start\<close> on the
  same server fails in that way. \<^verbatim>\<open>Stop\<close> on a server that was never started
  returns the error \<^verbatim>\<open>server not started yet\<close> and changes nothing.
\<close>

theorem Start_only_from_not_started:
  "(started s
      \<longrightarrow> Start T s eff = (Returns [Errorf ''server already started'' None], s, eff))
   \<and> (\<not> started s
      \<longrightarrow> (case Start T s eff of
             (outcome, s', eff') \<Rightarrow>
               started s'
               \<and> Start T s' eff' = (Returns [Errorf ''server already started'' None], s', eff')))
   \<and> (\<not> started s
      \<longrightarrow> Stop s eff = (Some (Errorf ''server not started yet'' None), s, eff))"
  by (auto simp: Start_def startListening_def Stop_def createListeners_eq
        createAndStartGRPCServers_def split: prod.splits)

text \<open>
  C8 on a server with two endpoints whose pipes can be created: the first \<^verbatim>\<open>Start\<close>
  serves both, the second fails and leaves the two serve loops as they are; and
  \<^verbatim>\<open>Stop\<close> on the server that was never started fails.
\<close>

theorem Start_only_from_not_started_witness:
  "Start exampleTransport
       (exampleServer\<lparr>versionedAPIs := [\<lparr>Group = ''disk'', Version = ''v1''\<rparr>,
                                        \<lparr>Group = ''smb'', Version = ''v1''\<rparr>],
                      started := True, grpcServers := [Some 0, Some 1]\<rparr>)
       (noEffects\<lparr>serveLoops := [(0, Some 7), (1, Some 9)]\<rparr>)
     = (Returns [Errorf ''server already started'' None],
        exampleServer\<lparr>versionedAPIs := [\<lparr>Group = ''disk'', Version = ''v1''\<rparr>,
                                        \<lparr>Group = ''smb'', Version = ''v1''\<rparr>],
                      started := True, grpcServers := [Some 0, Some 1]\<rparr>,
        noEffects\<lparr>serveLoops := [(0, Some 7), (1, Some 9)]\<rparr>)
   \<and> Start exampleTransport
       (exampleServer\<lparr>versionedAPIs := [\<lparr>Group = ''disk'', Version = ''v1''\<rparr>,
                                        \<lparr>Group = ''smb'', Version = ''v1''\<rparr>]\<rparr>)
       noEffects
     = (WaitsForServersToStop,
        exampleServer\<lparr>versionedAPIs := [\<lparr>Group = ''disk'', Version = ''v1''\<rparr>,
                                        \<lparr>Group = ''smb'', Version = ''v1''\<rparr>],
                      started := True, grpcServers := [Some 0, Some 1]\<rparr>,
        noEffects\<lparr>serveLoops := [(0, Some 7), (1, Some 9)]\<rparr>)
   \<and> Stop exampleServer noEffects
     = (Some (Errorf ''server not started yet'' None), exampleServer, noEffects)"
proof -
  let ?s = "exampleServer\<lparr>versionedAPIs := [\<lparr>Group = ''disk'', Version = ''v1''\<rparr>,
                                            \<lparr>Group = ''smb'', Version = ''v1''\<rparr>]\<rparr>"
  let ?s' = "?s\<lparr>started := True, grpcServers := [Some 0, Some 1]\<rparr>"
  let ?eff' = "noEffects\<lparr>serveLoops := [(0, Some 7), (1, Some 9)]\<rparr>"
  have first: "Start exampleTransport ?s noEffects = (WaitsForServersToStop, ?s', ?eff')"
    by (simp add: Start_def startListening_def createListeners_eq
          createAndStartGRPCServers_def exampleServer_def exampleTransport_def
          noEffects_def pipeOf_def slotOf_def upt_rec)
  have "started ?s'" and "\<not> started exampleServer"
    by (simp_all add: exampleServer_def)
  with Start_only_from_not_started [of ?s' exampleTransport ?eff']
    Start_only_from_not_started [of exampleServer exampleTransport noEffects] first
  show ?thesis by simp
qed

section \<open>Proofs: WMI queries\<close>

text \<open>
  C10. If the instance query returns the empty list and no error,
  \<^verbatim>\<open>QueryISCSITargetPortal\<close> and \<^verbatim>\<open>RemoveSMBGlobalMapping\<close> index its first
  element and panic: neither returns an error, or anything else, to its caller.
\<close>

theorem first_instance_of_empty_result_panics:
  "(QueryInstances WMINamespaceStorage (portalQuery address port selectorList) = Inr []
      \<longrightarrow> QueryISCSITargetPortal QueryInstances newPortal address port selectorList
            = Panic indexOutOfRange
          \<and> (\<forall>r. QueryISCSITargetPortal QueryInstances newPortal address port selectorList
                 \<noteq> Return r))
   \<and> (QuerySmbInstances WMINamespaceSmb (smbQuery remotePath) = Inr []
      \<longrightarrow> RemoveSMBGlobalMapping QuerySmbInstances invokeMethod remotePath
            = Panic indexOutOfRange
          \<and> (\<forall>r. RemoveSMBGlobalMapping QuerySmbInstances invokeMethod remotePath
                 \<noteq> Return r))"
  by (simp add: QueryISCSITargetPortal_def RemoveSMBGlobalMapping_def)

text \<open>C10 on a host where no instance matches the query.\<close>

theorem first_instance_of_empty_result_panics_witness:
  "QueryISCSITargetPortal noInstances (\<lambda>i. Inr i :: error + nat) ''10.0.0.1'' 3260 []
     = Panic indexOutOfRange
   \<and> RemoveSMBGlobalMapping noInstances (\<lambda>i m. None) ''share'' = Panic indexOutOfRange"
  using first_instance_of_empty_result_panics
    [of noInstances "''10.0.0.1''" 3260 "[]" "\<lambda>i. Inr i :: error + nat"
       noInstances "''share''" "\<lambda>i m. None"]
  by (simp add: noInstances_def)

subsection \<open>Correlation\<close>

lemma extractKey_total:
  "yieldsKey indexer r \<Longrightarrow> extractKey indexer r = Inr (projr (indexer r))"
  by (auto simp: yieldsKey_def extractKey_def split: sum.splits)

lemma yieldsKey_Inr: "yieldsKey indexer r \<Longrightarrow> indexer r = Inr (projr (indexer r))"
  by (auto simp: yieldsKey_def split: sum.splits)

lemma referenceKeys_total:
  "list_all (yieldsKey indexer) rs
   \<Longrightarrow> \<exists>keys. referenceKeys indexer rs = Inr keys \<and> Inr ` set keys = set (map indexer rs)"
proof (induction rs)
  case Nil
  then show ?case by simp
next
  case (Cons r rs)
  then obtain keys where k: "referenceKeys indexer rs = Inr keys"
    "Inr ` set keys = set (map indexer rs)" by auto
  from Cons.prems have "yieldsKey indexer r" by simp
  with k show ?case
    using extractKey_total [of indexer r] yieldsKey_Inr [of indexer r] by auto
qed

lemma keepCorrelated_total:
  "list_all (yieldsKey indexer) rs
   \<Longrightarrow> keepCorrelated indexer table refKeys rs
       = Inr (filter (\<lambda>r. case table (projr (indexer r)) of
                             None \<Rightarrow> False | Some target \<Rightarrow> target \<in> set refKeys) rs)"
  by (induction rs) (auto simp: extractKey_total)

lemma correlated_hasEntry:
  "correlated sourceIndexer referenceRecords referenceIndexer table r
   \<Longrightarrow> hasEntry sourceIndexer table r"
  by (auto simp: correlated_def hasEntry_def split: sum.splits option.splits)

text \<open>
  C3. For total indexers, \<^verbatim>\<open>FindInstancesByMapping\<close> returns exactly the source
  records whose key has an entry in the table that is the key of some reference
  record, in the order of the source records. So every returned record has an
  entry in the table, every record whose mapped key is a reference key is returned,
  and for no reference record the result is empty.
\<close>

theorem FindInstancesByMapping_semijoin:
  assumes "list_all (yieldsKey sourceIndexer) sourceRecords"
    and "list_all (yieldsKey referenceIndexer) referenceRecords"
  shows "FindInstancesByMapping sourceRecords sourceIndexer referenceRecords referenceIndexer table
           = Inr (filter (correlated sourceIndexer referenceRecords referenceIndexer table)
                    sourceRecords)
         \<and> list_all (hasEntry sourceIndexer table)
              (filter (correlated sourceIndexer referenceRecords referenceIndexer table)
                 sourceRecords)
         \<and> (referenceRecords = []
              \<longrightarrow> FindInstancesByMapping sourceRecords sourceIndexer referenceRecords
                    referenceIndexer table = Inr [])"
proof -
  from referenceKeys_total [OF assms(2)] obtain keys where
    k: "referenceKeys referenceIndexer referenceRecords = Inr keys"
    and ks: "Inr ` set keys = set (map referenceIndexer referenceRecords)" by blast
  have mem: "(target \<in> set keys) = (Inr target \<in> set (map referenceIndexer referenceRecords))"
    for target
    using ks by (metis image_iff sum.inject(2))
  have "filter (\<lambda>r. case table (projr (sourceIndexer r)) of
                       None \<Rightarrow> False | Some target \<Rightarrow> target \<in> set keys) sourceRecords
        = filter (correlated sourceIndexer referenceRecords referenceIndexer table) sourceRecords"
  proof (rule filter_cong [OF refl])
    fix r assume "r \<in> set sourceRecords"
    with assms(1) have "yieldsKey sourceIndexer r" by (simp add: list_all_iff)
    from yieldsKey_Inr [OF this] show
      "(case table (projr (sourceIndexer r)) of
          None \<Rightarrow> False | Some target \<Rightarrow> target \<in> set keys)
       = correlated sourceIndexer referenceRecords referenceIndexer table r"
      unfolding correlated_def
      by (cases "sourceIndexer r") (auto simp: mem split: option.splits)
  qed
  with k keepCorrelated_total [OF assms(1), of table keys]
  have main: "FindInstancesByMapping sourceRecords sourceIndexer referenceRecords referenceIndexer
           table = Inr (filter (correlated sourceIndexer referenceRecords referenceIndexer table)
                    sourceRecords)"
    by (simp add: FindInstancesByMapping_def)
  have entries: "list_all (hasEntry sourceIndexer table)
              (filter (correlated sourceIndexer referenceRecords referenceIndexer table)
                 sourceRecords)"
    using correlated_hasEntry by (fastforce simp: list_all_iff)
  have "filter (correlated sourceIndexer [] referenceIndexer table) sourceRecords = []"
    by (auto simp: correlated_def filter_empty_conv split: sum.splits option.splits)
  with main entries show ?thesis by auto
qed

text \<open>
  C3 on an example: of the records with the keys T1, T2 and T4 only the first maps
  (to P1) to the key of a reference record; T2 maps to P2, which is no reference
  key, and T4 has no entry. With no reference record nothing is returned.
\<close>

theorem FindInstancesByMapping_semijoin_witness:
  "FindInstancesByMapping [(''T1'', 1), (''T2'', 2), (''T4'', 4)] keyOf
       [(''P1'', 10), (''P3'', 30)] keyOf exampleTable
     = Inr [(''T1'', 1)]
   \<and> hasEntry keyOf exampleTable (''T1'', 1)
   \<and> FindInstancesByMapping [(''T1'', 1), (''T2'', 2), (''T4'', 4)] keyOf [] keyOf exampleTable
     = Inr []"
proof -
  have src: "list_all (yieldsKey keyOf) [(''T1'', 1), (''T2'', 2), (''T4'', 4)]"
    and refs: "list_all (yieldsKey keyOf) [(''P1'', 10), (''P3'', 30)]"
    and none: "list_all (yieldsKey keyOf) []"
    by (simp_all add: yieldsKey_def keyOf_def)
  from FindInstancesByMapping_semijoin [OF src refs, of exampleTable]
    FindInstancesByMapping_semijoin [OF src none, of exampleTable]
  show ?thesis
    by (simp add: correlated_def keyOf_def exampleTable_def)
qed

subsection \<open>Mapping tables\<close>

lemma insertPair_apply:
  "insertPair replaces result key val k =
     (if k = key
      then (case result key of
              None \<Rightarrow> Some val
            | Some old \<Rightarrow> if replaces key old val then Some val else Some old)
      else result k)"
  by (simp add: insertPair_def split: option.splits)

lemma insertPairs_total:
  "list_all (yieldsKey keyIndexer) rows \<Longrightarrow> list_all (yieldsKey valueIndexer) rows
   \<Longrightarrow> insertPairs replaces keyIndexer valueIndexer rows result
       = Inr (insertAll replaces (pairsOf keyIndexer valueIndexer rows) result)"
  by (induction rows arbitrary: result)
     (simp_all add: extractKey_total pairsOf_def pairOf_def)

text \<open>
  Whatever is done on a repeated source key: a key that no pair has keeps what the
  table had for it; a key that some pair has gets an entry; every entry is one the
  table had or one of the pairs; and pairs with distinct, new keys are all stored.
\<close>

lemma insertAll_other:
  "k \<notin> fst ` set pairs \<Longrightarrow> insertAll replaces pairs table k = table k"
  by (induction pairs arbitrary: table) (auto simp: insertPair_apply)

lemma insertAll_kept:
  "table k \<noteq> None \<Longrightarrow> insertAll replaces pairs table k \<noteq> None"
proof (induction pairs arbitrary: table)
  case Nil
  then show ?case by simp
next
  case (Cons p pairs)
  obtain key val where p: "p = (key, val)" by (cases p)
  from Cons.prems have "insertPair replaces table key val k \<noteq> None"
    by (simp add: insertPair_apply split: option.splits)
  with Cons.IH [where table = "insertPair replaces table key val"] show ?case
    by (simp add: p)
qed

lemma insertAll_present:
  "k \<in> fst ` set pairs \<Longrightarrow> insertAll replaces pairs table k \<noteq> None"
proof (induction pairs arbitrary: table)
  case Nil
  then show ?case by simp
next
  case (Cons p pairs)
  obtain key val where p: "p = (key, val)" by (cases p)
  show ?case
  proof (cases "k = key")
    case True
    then have "insertPair replaces table key val k \<noteq> None"
      by (simp add: insertPair_apply split: option.splits)
    with insertAll_kept [where table = "insertPair replaces table key val"] show ?thesis
      by (simp add: p)
  next
    case False
    with Cons.prems have "k \<in> fst ` set pairs" by (auto simp: p)
    from Cons.IH [OF this] show ?thesis by (simp add: p)
  qed
qed

lemma insertAll_origin:
  "insertAll replaces pairs table k = Some v \<Longrightarrow> table k = Some v \<or> (k, v) \<in> set pairs"
proof (induction pairs arbitrary: table)
  case Nil
  then show ?case by simp
next
  case (Cons p pairs)
  obtain key val where p: "p = (key, val)" by (cases p)
  from Cons.prems have "insertAll replaces pairs (insertPair replaces table key val) k = Some v"
    by (simp add: p)
  from Cons.IH [OF this] show ?case
    by (auto simp: p insertPair_apply split: if_splits option.splits)
qed

lemma insertAll_distinct:
  "distinct (map fst pairs) \<Longrightarrow> \<forall>k \<in> fst ` set pairs. table k = None
   \<Longrightarrow> (k, v) \<in> set pairs \<Longrightarrow> insertAll replaces pairs table k = Some v"
proof (induction pairs arbitrary: table)
  case Nil
  then show ?case by simp
next
  case (Cons p pairs)
  obtain key val where p: "p = (key, val)" by (cases p)
  from Cons.prems(1) have nokey: "key \<notin> fst ` set pairs" and d: "distinct (map fst pairs)"
    by (simp_all add: p)
  from Cons.prems(2) have "table key = None" by (simp add: p)
  then have stored: "insertPair replaces table key val key = Some val"
    by (simp add: insertPair_apply)
  have fresh: "\<forall>k \<in> fst ` set pairs. insertPair replaces table key val k = None"
    using Cons.prems(2) nokey by (auto simp: p insertPair_apply)
  from Cons.prems(3) have "(k, v) = (key, val) \<or> (k, v) \<in> set pairs" by (simp add: p)
  then show ?case
  proof
    assume "(k, v) = (key, val)"
    with insertAll_other [OF nokey, of replaces "insertPair replaces table key val"] stored
    show ?thesis by (simp add: p)
  next
    assume "(k, v) \<in> set pairs"
    from Cons.IH [OF d fresh this] show ?thesis by (simp add: p)
  qed
qed

text \<open>
  C9 as stated fails. The association collection of the example host has two rows
  with the source key T1, one for the portal P1 and one for P2. The table is a map
  with one target key under a source key, so whatever the insertion does with the
  second row, the lookup of T1 yields one target key and not the two that the rows
  contribute: P1 if the stored pair is kept, P2 if it is replaced.
\<close>

theorem ListISCSITargetToISCSITargetPortalMapping_counterexample:
  "twoPortalHost WMINamespaceStorage
       (NewWmiQueryWithSelectList ''MSFT_iSCSITargetToiSCSITargetPortal'' [] [])
     = Inr [(''T1'', ''P1''), (''T1'', ''P2''), (''T2'', ''P1'')]
   \<and> length (filter (\<lambda>row. sourceSide row = Inr ''T1'')
               [(''T1'', ''P1''), (''T1'', ''P2''), (''T2'', ''P1'')]) = 2
   \<and> (\<forall>replaces.
         case ListISCSITargetToISCSITargetPortalMapping replaces twoPortalHost
                sourceSide targetSide of
           Inl err \<Rightarrow> False
         | Inr table \<Rightarrow>
             length (targetsOf table ''T1'') = 1
             \<and> targetsOf table ''T1'' \<noteq> [''P1'', ''P2''])
   \<and> (case ListISCSITargetToISCSITargetPortalMapping keepStored twoPortalHost
              sourceSide targetSide of
         Inl err \<Rightarrow> False
       | Inr table \<Rightarrow> targetsOf table ''T1'' = [''P1''])
   \<and> (case ListISCSITargetToISCSITargetPortalMapping takeIncoming twoPortalHost
              sourceSide targetSide of
         Inl err \<Rightarrow> False
       | Inr table \<Rightarrow> targetsOf table ''T1'' = [''P2''])"
  by (simp add: ListISCSITargetToISCSITargetPortalMapping_def ListWMIInstanceMappings_def
        twoPortalHost_def twoPortalRows_def NewWmiQueryWithSelectList_def
        extractKey_def sourceSide_def targetSide_def targetsOf_def insertPair_def
        keepStored_def takeIncoming_def)

text \<open>
  C9, amended. Building a mapping table lists the records of the named association
  collection once and, the indexers being total on them, stores pairs of the rows in
  a map with one target key under a source key. The table has an entry for exactly
  the source keys that the rows have, and each entry is the (source key, target key)
  pair of one of the rows. So looking up a source key yields no target key or one:
  none if no row has that source key, and otherwise the target key of one of the
  rows that have it. When no two rows share a source key, every row contributes
  exactly one pair and the table holds exactly the pairs of the rows. This holds
  whatever is done on a repeated source key.
\<close>

theorem ListWMIInstanceMappings_single_valued:
  assumes "QueryInstances ns (NewWmiQueryWithSelectList mappingClassName selectorList [])
             = Inr rows"
    and "list_all (yieldsKey keyIndexer) rows"
    and "list_all (yieldsKey valueIndexer) rows"
  shows "\<exists>table.
           ListWMIInstanceMappings replaces QueryInstances ns mappingClassName selectorList
               keyIndexer valueIndexer = Inr table
           \<and> dom table = fst ` set (pairsOf keyIndexer valueIndexer rows)
           \<and> Map.graph table \<subseteq> set (pairsOf keyIndexer valueIndexer rows)
           \<and> length (targetsOf table key) \<le> 1
           \<and> set (targetsOf table key)
               \<subseteq> snd ` {p \<in> set (pairsOf keyIndexer valueIndexer rows). fst p = key}
           \<and> (key \<in> fst ` set (pairsOf keyIndexer valueIndexer rows)
                \<longrightarrow> length (targetsOf table key) = 1)
           \<and> (distinct (map fst (pairsOf keyIndexer valueIndexer rows))
                \<longrightarrow> Map.graph table = set (pairsOf keyIndexer valueIndexer rows))"
proof -
  let ?pairs = "pairsOf keyIndexer valueIndexer rows"
  let ?table = "insertAll replaces ?pairs Map.empty"
  have built: "ListWMIInstanceMappings replaces QueryInstances ns mappingClassName selectorList
          keyIndexer valueIndexer = Inr ?table"
    using assms(1) insertPairs_total [OF assms(2,3), of replaces Map.empty]
    by (simp add: ListWMIInstanceMappings_def)
  have origin: "(k, v) \<in> set ?pairs" if "?table k = Some v" for k v
    using insertAll_origin [OF that] by simp
  have absent: "?table k = None" if "k \<notin> fst ` set ?pairs" for k
    using insertAll_other [OF that, of replaces Map.empty] by simp
  have present: "?table k \<noteq> None" if "k \<in> fst ` set ?pairs" for k
    using that by (rule insertAll_present)
  have dom: "dom ?table = fst ` set ?pairs"
  proof
    show "dom ?table \<subseteq> fst ` set ?pairs"
    proof
      fix k assume "k \<in> dom ?table"
      then have "?table k \<noteq> None" by (simp add: dom_def)
      with absent [of k] show "k \<in> fst ` set ?pairs" by blast
    qed
    show "fst ` set ?pairs \<subseteq> dom ?table"
    proof
      fix k assume "k \<in> fst ` set ?pairs"
      from present [OF this] show "k \<in> dom ?table" by (simp add: dom_def)
    qed
  qed
  have sub: "Map.graph ?table \<subseteq> set ?pairs"
    using origin by (auto simp: Map.graph_def)
  have atmost: "length (targetsOf ?table key) \<le> 1"
    by (simp add: targetsOf_def split: option.splits)
  have from_rows: "set (targetsOf ?table key) \<subseteq> snd ` {p \<in> set ?pairs. fst p = key}"
  proof (cases "?table key")
    case None
    then show ?thesis by (simp add: targetsOf_def)
  next
    case (Some v)
    from origin [OF this] have "(key, v) \<in> {p \<in> set ?pairs. fst p = key}" by simp
    then have "v \<in> snd ` {p \<in> set ?pairs. fst p = key}" by force
    with Some show ?thesis by (simp add: targetsOf_def)
  qed
  have one: "length (targetsOf ?table key) = 1" if "key \<in> fst ` set ?pairs"
    using present [OF that] by (cases "?table key") (simp_all add: targetsOf_def)
  have all: "Map.graph ?table = set ?pairs" if d: "distinct (map fst ?pairs)"
  proof
    show "Map.graph ?table \<subseteq> set ?pairs" by (rule sub)
    show "set ?pairs \<subseteq> Map.graph ?table"
    proof
      fix p assume "p \<in> set ?pairs"
      then have "(fst p, snd p) \<in> set ?pairs" by simp
      from insertAll_distinct [OF d _ this, of Map.empty replaces]
      have "?table (fst p) = Some (snd p)" by simp
      then show "p \<in> Map.graph ?table" by (cases p) (simp add: Map.graph_def)
    qed
  qed
  from built dom sub atmost from_rows one all show ?thesis by blast
qed

text \<open>
  C9, amended, on the example hosts. With the rows (T1, P1), (T1, P2), (T2, P1) and
  the stored pair replaced on a repeated key, the table has entries for T1 and T2
  only, each the pair of a row, and one target key for T1. With the rows (T1, P1),
  (T2, P1) the table holds exactly the two pairs.
\<close>

theorem ListWMIInstanceMappings_single_valued_witness:
  "(\<exists>table.
      ListWMIInstanceMappings takeIncoming twoPortalHost WMINamespaceStorage
          ''MSFT_iSCSITargetToiSCSITargetPortal'' [] sourceSide targetSide = Inr table
      \<and> dom table = {''T1'', ''T2''}
      \<and> Map.graph table \<subseteq> {(''T1'', ''P1''), (''T1'', ''P2''), (''T2'', ''P1'')}
      \<and> length (targetsOf table ''T1'') = 1)
   \<and> (\<exists>table.
      ListWMIInstanceMappings keepStored onePortalHost WMINamespaceStorage
          ''MSFT_iSCSITargetToiSCSITargetPortal'' [] sourceSide targetSide = Inr table
      \<and> Map.graph table = {(''T1'', ''P1''), (''T2'', ''P1'')})"
proof -
  have listed: "twoPortalHost WMINamespaceStorage
       (NewWmiQueryWithSelectList ''MSFT_iSCSITargetToiSCSITargetPortal'' [] [])
     = Inr twoPortalRows"
    by (simp add: twoPortalHost_def NewWmiQueryWithSelectList_def)
  have total: "list_all (yieldsKey sourceSide) twoPortalRows"
    "list_all (yieldsKey targetSide) twoPortalRows"
    by (simp_all add: yieldsKey_def sourceSide_def targetSide_def twoPortalRows_def)
  have pairs: "pairsOf sourceSide targetSide twoPortalRows
      = [(''T1'', ''P1''), (''T1'', ''P2''), (''T2'', ''P1'')]"
    by (simp add: pairsOf_def pairOf_def sourceSide_def targetSide_def twoPortalRows_def)
  have two: "\<exists>table.
      ListWMIInstanceMappings takeIncoming twoPortalHost WMINamespaceStorage
          ''MSFT_iSCSITargetToiSCSITargetPortal'' [] sourceSide targetSide = Inr table
      \<and> dom table = {''T1'', ''T2''}
      \<and> Map.graph table \<subseteq> {(''T1'', ''P1''), (''T1'', ''P2''), (''T2'', ''P1'')}
      \<and> length (targetsOf table ''T1'') = 1"
    using ListWMIInstanceMappings_single_valued
      [where QueryInstances = twoPortalHost and ns = WMINamespaceStorage
         and mappingClassName = "''MSFT_iSCSITargetToiSCSITargetPortal''"
         and selectorList = "[]" and rows = twoPortalRows
         and keyIndexer = sourceSide and valueIndexer = targetSide
         and replaces = takeIncoming and key = "''T1''", OF listed total]
    by (auto simp: pairs)
  have listed': "onePortalHost WMINamespaceStorage
       (NewWmiQueryWithSelectList ''MSFT_iSCSITargetToiSCSITargetPortal'' [] [])
     = Inr [(''T1'', ''P1''), (''T2'', ''P1'')]"
    by (simp add: onePortalHost_def)
  have total': "list_all (yieldsKey sourceSide) [(''T1'', ''P1''), (''T2'', ''P1'')]"
    "list_all (yieldsKey targetSide) [(''T1'', ''P1''), (''T2'', ''P1'')]"
    by (simp_all add: yieldsKey_def sourceSide_def targetSide_def)
  have pairs': "pairsOf sourceSide targetSide [(''T1'', ''P1''), (''T2'', ''P1'')]
      = [(''T1'', ''P1''), (''T2'', ''P1'')]"
    by (simp add: pairsOf_def pairOf_def sourceSide_def targetSide_def)
  have one: "\<exists>table.
      ListWMIInstanceMappings keepStored onePortalHost WMINamespaceStorage
          ''MSFT_iSCSITargetToiSCSITargetPortal'' [] sourceSide targetSide = Inr table
      \<and> Map.graph table = {(''T1'', ''P1''), (''T2'', ''P1'')}"
    using ListWMIInstanceMappings_single_valued
      [where QueryInstances = onePortalHost and ns = WMINamespaceStorage
         and mappingClassName = "''MSFT_iSCSITargetToiSCSITargetPortal''"
         and selectorList = "[]" and rows = "[(''T1'', ''P1''), (''T2'', ''P1'')]"
         and keyIndexer = sourceSide and valueIndexer = targetSide
         and replaces = keepStored and key = "''T1''", OF listed' total']
    by (auto simp: pairs')
  from two one show ?thesis by blast
qed

end
